theory Spec2Isabelle
  imports Main "HOL-Library.Monad_Syntax"
begin

section \<open>Constants of \<^verbatim>\<open>node/session.go\<close>\<close>

text \<open>
  The close codes are the constants of the WebSocket library that the source re-exports
  (RFC 6455, section 7.4.1), with the values that section 6 of the specification lists.
  Durations are \<^verbatim>\<open>time.Duration\<close> values: integers counting nanoseconds. A point in time
  is an integer too (nanoseconds since the Unix epoch).
\<close>

type_synonym bytes = string

definition CloseNormalClosure :: int where "CloseNormalClosure = 1000"
definition CloseGoingAway :: int where "CloseGoingAway = 1001"
definition CloseNoStatusReceived :: int where "CloseNoStatusReceived = 1005"
definition CloseAbnormalClosure :: int where "CloseAbnormalClosure = 1006"
definition CloseInternalServerErr :: int where "CloseInternalServerErr = 1011"

definition Second :: int where "Second = 1000000000"
definition writeWait :: int where "writeWait = 10 * Second"
definition pingInterval :: int where "pingInterval = 3 * Second"

definition expectedCloseStatuses :: "int list" where
  "expectedCloseStatuses = [CloseNormalClosure, CloseGoingAway, CloseNoStatusReceived]"

section \<open>Data\<close>

text \<open>\<^verbatim>\<open>type frameType int\<close> with its two named values.\<close>

type_synonym frameType = int

definition textFrame :: frameType where "textFrame = 0"
definition closeFrame :: frameType where "closeFrame = 1"

record sentFrame =
  frameType :: frameType
  payload :: bytes
  closeCode :: int
  closeReason :: string

text \<open>
  A buffered Go channel: the buffered values in arrival order, the capacity given to
  \<^verbatim>\<open>make\<close>, and whether \<^verbatim>\<open>close\<close> has been applied to it.
\<close>

record chan =
  buf :: "sentFrame list"
  cap :: nat
  chclosed :: bool

text \<open>A \<^verbatim>\<open>*time.Timer\<close> made by \<^verbatim>\<open>time.AfterFunc\<close>; \<^verbatim>\<open>Stop\<close> clears \<open>active\<close>.\<close>

record timer =
  duration :: int
  active :: bool

text \<open>
  What one call of \<^verbatim>\<open>Session.write\<close> meets on the connection: \<^verbatim>\<open>NextWriter\<close> fails,
  or the writer's \<^verbatim>\<open>Close\<close> (the flush) fails, or the frame goes out.
\<close>

datatype wresult = WriteOk | NextWriterErr | WriterCloseErr

text \<open>
  The calls the session makes on its collaborators, in program order. The boolean of a
  connection or timer event records whether the session mutex was held when the call was
  made. \<^verbatim>\<open>Node.Disconnect\<close> and \<^verbatim>\<open>utils.CloseWS\<close> are not among the source files at hand:
  a call of either is recorded with its arguments, and what it does inside is not
  modelled.
  \<^item> \<open>SetWriteDeadline d held\<close>: \<^verbatim>\<open>s.ws.SetWriteDeadline(d)\<close>;
  \<^item> \<open>TextMessage p held r\<close>: \<^verbatim>\<open>NextWriter(TextMessage)\<close>, \<^verbatim>\<open>Write(p)\<close> and
    \<^verbatim>\<open>Close()\<close> of the frame writer, with the outcome \<open>r\<close>;
  \<^item> \<open>CloseWS code reason held\<close>: \<^verbatim>\<open>utils.CloseWS(s.ws, code, reason)\<close>;
  \<^item> \<open>NodeDisconnect\<close>: \<^verbatim>\<open>s.node.Disconnect(s)\<close>, the order for an RPC Disconnect;
  \<^item> \<open>AfterFunc d held\<close>: \<^verbatim>\<open>time.AfterFunc(d, s.sendPing)\<close>;
  \<^item> \<open>CallDisconnect reason code\<close>: entry into \<^verbatim>\<open>Session.Disconnect\<close>.
\<close>

datatype event =
    SetWriteDeadline int bool
  | TextMessage bytes bool wresult
  | CloseWS int string bool
  | NodeDisconnect
  | AfterFunc int bool
  | CallDisconnect string int

text \<open>
  The fields of \<^verbatim>\<open>Session\<close> that the operations below read or write. The channel
  allocated by \<^verbatim>\<open>NewSession\<close> is the only one a session ever has, so the field
  \<^verbatim>\<open>send\<close> is either nil or a reference to it: \<open>queue\<close> is the channel object and
  \<open>send_nil\<close> says that the field holds nil. \<open>mu\<close> is true while the mutex is locked.
\<close>

record Session =
  queue :: chan
  send_nil :: bool
  closed :: bool
  connected :: bool
  mu :: bool
  pingTimer :: "timer option"
  UID :: string
  trace :: "event list"

section \<open>Operations\<close>

text \<open>
  An operation returns \<open>None\<close> when the call does not return normally: it locks a mutex
  that is already held (a sequential run then blocks forever) or it panics.
\<close>

definition Lock :: "Session \<Rightarrow> Session option" where
  "Lock s = (if mu s then None else Some (s\<lparr>mu := True\<rparr>))"

definition Unlock :: "Session \<Rightarrow> Session option" where
  "Unlock s = (if mu s then Some (s\<lparr>mu := False\<rparr>) else None)"

definition emit :: "event \<Rightarrow> Session \<Rightarrow> Session" where
  "emit e s = s\<lparr>trace := trace s @ [e]\<rparr>"

definition Stop :: "timer \<Rightarrow> timer" where
  "Stop t = t\<lparr>active := False\<rparr>"

definition stopPingTimer :: "Session \<Rightarrow> Session" where
  "stopPingTimer s = (case pingTimer s of None \<Rightarrow> s | Some t \<Rightarrow> s\<lparr>pingTimer := Some (Stop t)\<rparr>)"

definition enqueue :: "sentFrame \<Rightarrow> Session \<Rightarrow> Session" where
  "enqueue frame s = s\<lparr>queue := (queue s)\<lparr>buf := buf (queue s) @ [frame]\<rparr>\<rparr>"

definition close_chan :: "Session \<Rightarrow> Session" where
  "close_chan s = s\<lparr>queue := (queue s)\<lparr>chclosed := True\<rparr>\<rparr>"

text \<open>
  The rank that decreases along the call chain
  \<^verbatim>\<open>sendFrame \<rightarrow> Disconnect \<rightarrow> Close \<rightarrow> sendClose \<rightarrow> sendFrame\<close>: the overflow branch sets
  \<^verbatim>\<open>send\<close> to nil before it calls \<^verbatim>\<open>Disconnect\<close>, and \<^verbatim>\<open>Close\<close> sets \<^verbatim>\<open>closed\<close> before
  it calls \<^verbatim>\<open>sendClose\<close>.
\<close>

definition rank :: "Session \<Rightarrow> nat" where
  "rank s = (if send_nil s then 0 else 4) + (if closed s then 0 else 4)"

text \<open>
  \<^verbatim>\<open>sendFrame\<close> (lines 157-177), \<^verbatim>\<open>sendClose\<close> (149-155), \<^verbatim>\<open>Disconnect\<close> (217-226) and
  \<^verbatim>\<open>Close\<close> (229-245). A deferred call runs when its function returns, so it is the last
  step of the model. A non-blocking send on a channel succeeds exactly when the buffer has
  room; on a closed channel it panics.
\<close>

function sendFrame :: "sentFrame \<Rightarrow> Session \<Rightarrow> Session option"
  and sendClose :: "string \<Rightarrow> int \<Rightarrow> Session \<Rightarrow> Session option"
  and Disconnect :: "string \<Rightarrow> int \<Rightarrow> Session \<Rightarrow> Session option"
  and Close :: "string \<Rightarrow> int \<Rightarrow> Session \<Rightarrow> Session option"
where
  "sendFrame frame s0 = do {
     s \<leftarrow> Lock s0;
     if send_nil s then Unlock s
     else if chclosed (queue s) then None
     else if length (buf (queue s)) < cap (queue s) then Unlock (enqueue frame s)
     else do {
       let deferred = \<not> send_nil s;
       let s = (if deferred then close_chan s else s);
       let s = s\<lparr>send_nil := True\<rparr>;
       s \<leftarrow> Unlock s;
       if deferred then Disconnect ''Write failed'' CloseAbnormalClosure s else Some s
     }
   }"
| "sendClose reason code s =
     sendFrame \<lparr>frameType = closeFrame, payload = [], closeCode = code, closeReason = reason\<rparr> s"
| "Disconnect reason code s0 = do {
     s \<leftarrow> Lock (emit (CallDisconnect reason code) s0);
     let deferred = connected s;
     let s = s\<lparr>connected := False\<rparr>;
     s \<leftarrow> Unlock s;
     s \<leftarrow> Close reason code s;
     if deferred then Some (emit NodeDisconnect s) else Some s
   }"
| "Close reason code s0 = do {
     s \<leftarrow> Lock s0;
     if closed s then Unlock s
     else do {
       let s = s\<lparr>closed := True\<rparr>;
       s \<leftarrow> Unlock s;
       s \<leftarrow> sendClose reason code s;
       Some (stopPingTimer s)
     }
   }"
  by pat_completeness auto
termination
  by (relation "measure (\<lambda>x. case x of
      Inl (Inl (f, s)) \<Rightarrow> rank s
    | Inl (Inr (r, c, s)) \<Rightarrow> rank s + 1
    | Inr (Inl (r, c, s)) \<Rightarrow> rank s + 3
    | Inr (Inr (r, c, s)) \<Rightarrow> rank s + 2)")
    (auto simp: rank_def Lock_def Unlock_def emit_def close_chan_def split: if_splits)

declare sendFrame.simps [simp del] sendClose.simps [simp del]
  Disconnect.simps [simp del] Close.simps [simp del]

text \<open>\<^verbatim>\<open>Send\<close> (lines 145-147); the unset fields of the struct literal are zero values.\<close>

definition Send :: "bytes \<Rightarrow> Session \<Rightarrow> Session option" where
  "Send msg s =
     sendFrame \<lparr>frameType = textFrame, payload = msg, closeCode = 0, closeReason = []\<rparr> s"

text \<open>
  \<^verbatim>\<open>write\<close> (lines 179-194), named \<open>write_ws\<close> here. The outcome \<open>r\<close> of the connection
  is an input; the result says whether the returned error is non-nil.
\<close>

definition write_ws :: "bytes \<Rightarrow> int \<Rightarrow> wresult \<Rightarrow> Session \<Rightarrow> (bool \<times> Session) option" where
  "write_ws message deadline r s0 = do {
     s \<leftarrow> Lock s0;
     let s = emit (SetWriteDeadline deadline (mu s)) s;
     let s = emit (TextMessage message (mu s) r) s;
     s \<leftarrow> Unlock s;
     Some (r \<noteq> WriteOk, s)
   }"

text \<open>\<^verbatim>\<open>addPing\<close> (lines 258-267).\<close>

definition addPing :: "Session \<Rightarrow> Session option" where
  "addPing s0 = do {
     s \<leftarrow> Lock s0;
     if closed s then Unlock s
     else do {
       let s = emit (AfterFunc pingInterval (mu s)) s;
       let s = s\<lparr>pingTimer := Some \<lparr>duration = pingInterval, active = True\<rparr>\<rparr>;
       Unlock s
     }
   }"

text \<open>
  \<^verbatim>\<open>pingMessage\<close>, \<^verbatim>\<open>toJSON\<close> (lines 70-81) and \<^verbatim>\<open>newPingMessage\<close> (269-271).
  \<^verbatim>\<open>json.Marshal\<close> writes the fields in declaration order under their tags, a string
  between double quotes (the only value the source gives \<open>Type\<close> needs no escape), and an
  integer in decimal (\<open>decimal\<close> gives the digits of a number that is not negative).
  \<open>now\<close> is what \<^verbatim>\<open>time.Now()\<close> returns; \<^verbatim>\<open>Unix()\<close> is the number of whole seconds.
\<close>

record pingMessage =
  Type :: string
  Message :: int

function decimal :: "int \<Rightarrow> string" where
  "decimal n = (if n < 10 then [char_of (48 + n)]
                else decimal (n div 10) @ [char_of (48 + n mod 10)])"
  by pat_completeness auto
termination
  by (relation "measure nat") auto

declare decimal.simps [simp del]

definition FormatInt :: "int \<Rightarrow> string" where
  "FormatInt i = (if i < 0 then CHR ''-'' # decimal (- i) else decimal i)"

definition toJSON :: "pingMessage \<Rightarrow> bytes" where
  \<open>toJSON p = ''{"type":"'' @ Type p @ ''","message":'' @ FormatInt (Message p) @ ''}''\<close>

definition Unix :: "int \<Rightarrow> int" where
  "Unix now = now div Second"

definition newPingMessage :: "int \<Rightarrow> bytes" where
  "newPingMessage now = toJSON \<lparr>Type = ''ping'', Message = Unix now\<rparr>"

text \<open>
  \<^verbatim>\<open>sendPing\<close> (lines 247-256). The clock is read twice: \<open>now\<close> for the deadline, then
  \<open>now'\<close> inside \<^verbatim>\<open>newPingMessage\<close>.
\<close>

definition sendPing :: "int \<Rightarrow> int \<Rightarrow> wresult \<Rightarrow> Session \<Rightarrow> Session option" where
  "sendPing now now' r s0 = do {
     let deadline = now + pingInterval div 2;
     (err, s) \<leftarrow> write_ws (newPingMessage now') deadline r s0;
     if \<not> err then addPing s
     else Disconnect ''Ping failed'' CloseAbnormalClosure s
   }"

text \<open>
  \<^verbatim>\<open>SendMessages\<close> (lines 117-142). One pass through the body of the \<^verbatim>\<open>for\<close> loop either
  goes round again, returns, or blocks in the receive: for ever on a nil channel, until a
  producer sends on an empty open one. \<open>now\<close> and \<open>r\<close> are the clock and the outcome of
  the connection for this pass.
\<close>

datatype exit_cause = QueueClosed | WriteError | CloseDelivered | UnknownFrame

datatype progress = Continue | Return exit_cause | Blocked

definition SendMessages_pass :: "int \<Rightarrow> wresult \<Rightarrow> Session \<Rightarrow> (progress \<times> Session) option" where
  "SendMessages_pass now r s0 =
     (if send_nil s0 then Some (Blocked, s0)
      else case buf (queue s0) of
        [] \<Rightarrow> if chclosed (queue s0) then Some (Return QueueClosed, s0) else Some (Blocked, s0)
      | message # rest \<Rightarrow>
          let s = s0\<lparr>queue := (queue s0)\<lparr>buf := rest\<rparr>\<rparr> in
          if frameType message = textFrame then do {
            (err, s) \<leftarrow> write_ws (payload message) (now + writeWait) r s;
            if err then Some (Return WriteError, s) else Some (Continue, s)
          }
          else if frameType message = closeFrame then
            Some (Return CloseDelivered,
                  emit (CloseWS (closeCode message) (closeReason message) (mu s)) s)
          else Some (Return UnknownFrame, s))"

text \<open>
  The loop: \<open>env i\<close> gives the clock and the outcome of the connection for pass \<open>i\<close>.
  Every pass that goes round again has taken one frame out of the buffer. The deferred
  \<^verbatim>\<open>Disconnect\<close> of line 118 runs when the loop returns.
\<close>

function SendMessages_loop ::
    "(nat \<Rightarrow> int \<times> wresult) \<Rightarrow> nat \<Rightarrow> Session \<Rightarrow> (progress \<times> Session) option" where
  "SendMessages_loop env i s =
     (case SendMessages_pass (fst (env i)) (snd (env i)) s of
        None \<Rightarrow> None
      | Some (p, s') \<Rightarrow> if p = Continue then SendMessages_loop env (Suc i) s' else Some (p, s'))"
  by pat_completeness auto
termination
  by (relation "measure (\<lambda>(env, i, s). length (buf (queue s)))")
    (auto simp: SendMessages_pass_def write_ws_def Lock_def Unlock_def emit_def Let_def
          split: if_splits list.splits)

declare SendMessages_loop.simps [simp del]

definition SendMessages ::
    "(nat \<Rightarrow> int \<times> wresult) \<Rightarrow> Session \<Rightarrow> (progress \<times> Session) option" where
  "SendMessages env s0 = do {
     (p, s) \<leftarrow> SendMessages_loop env 0 s0;
     if p = Blocked then Some (p, s)
     else do {
       s \<leftarrow> Disconnect ''Write Failed'' CloseAbnormalClosure s;
       Some (p, s)
     }
   }"

text \<open>
  \<^verbatim>\<open>ReadMessages\<close> (lines 197-214). What \<^verbatim>\<open>s.ws.ReadMessage()\<close> returns is an input: a
  message, or an error that is a \<^verbatim>\<open>*websocket.CloseError\<close> with its code or is not.
  \<^verbatim>\<open>websocket.IsCloseError(err, codes...)\<close> holds when \<open>err\<close> is a close error whose code is
  one of \<open>codes\<close>. \<^verbatim>\<open>Node.HandleCommand\<close> is not part of this file of the source and is a
  parameter. The result says whether the loop has ended (\<open>True\<close>) or waits for the next
  frame (\<open>False\<close>).
\<close>

datatype ws_error = CloseError int string | OtherError string

datatype read_result = ReadOk bytes | ReadErr ws_error

fun IsCloseError :: "ws_error \<Rightarrow> int list \<Rightarrow> bool" where
  "IsCloseError (CloseError code text) codes = (code \<in> set codes)"
| "IsCloseError (OtherError text) codes = False"

fun ReadMessages :: "(bytes \<Rightarrow> Session \<Rightarrow> Session option) \<Rightarrow> read_result list \<Rightarrow> Session
    \<Rightarrow> (bool \<times> Session) option" where
  "ReadMessages HandleCommand [] s = Some (False, s)"
| "ReadMessages HandleCommand (ReadErr err # reads) s = do {
     s \<leftarrow> (if IsCloseError err expectedCloseStatuses
          then Disconnect ''Read closed'' CloseNormalClosure s
          else Disconnect ''Read failed'' CloseAbnormalClosure s);
     Some (True, s)
   }"
| "ReadMessages HandleCommand (ReadOk message # reads) s = do {
     s \<leftarrow> HandleCommand message s;
     ReadMessages HandleCommand reads s
   }"

text \<open>
  \<^verbatim>\<open>NewSession\<close> (lines 84-114). \<open>emptySession\<close> is the struct literal of lines 85-93.
  \<^verbatim>\<open>Node.Authenticate\<close> is not part of this file of the source and is a parameter, which
  returns whether its error is non-nil. The writer started by \<^verbatim>\<open>go session.SendMessages()\<close>
  runs on its own and is not a step of this function. The deferred \<^verbatim>\<open>Close\<close> runs last.
\<close>

definition emptySession :: Session where
  "emptySession = \<lparr>queue = \<lparr>buf = [], cap = 256, chclosed = False\<rparr>, send_nil = False,
     closed = False, connected = False, mu = False, pingTimer = None, UID = [], trace = []\<rparr>"

definition NewSession ::
    "(Session \<Rightarrow> (bool \<times> Session) option) \<Rightarrow> string \<Rightarrow> (Session \<times> bool) option" where
  "NewSession Authenticate uid = do {
     let session = emptySession;
     let session = session\<lparr>UID := uid\<rparr>;
     (err, session) \<leftarrow> Authenticate session;
     session \<leftarrow> addPing session;
     session \<leftarrow> (if err then Close ''Auth Error'' CloseInternalServerErr session
                 else Some session);
     Some (session, err)
   }"

section \<open>Runs of a session\<close>

text \<open>
  The entry points of a session, with the inputs each one takes from its environment, and
  the execution of a sequence of them one after the other. \<open>Op_SendMessages\<close> runs the
  writer until it returns or blocks; \<open>Op_ReadError\<close> is the pass of the reader loop in
  which \<^verbatim>\<open>ReadMessage\<close> fails.
\<close>

datatype op =
    Op_Send bytes
  | Op_Close string int
  | Op_Disconnect string int
  | Op_addPing
  | Op_sendPing int int wresult
  | Op_SendMessages "nat \<Rightarrow> int \<times> wresult"
  | Op_ReadError ws_error

fun exec :: "op \<Rightarrow> Session \<Rightarrow> Session option" where
  "exec (Op_Send msg) s = Send msg s"
| "exec (Op_Close reason code) s = Close reason code s"
| "exec (Op_Disconnect reason code) s = Disconnect reason code s"
| "exec Op_addPing s = addPing s"
| "exec (Op_sendPing now now' r) s = sendPing now now' r s"
| "exec (Op_SendMessages env) s = map_option snd (SendMessages env s)"
| "exec (Op_ReadError err) s = map_option snd (ReadMessages (\<lambda>m. Some) [ReadErr err] s)"

fun run :: "op list \<Rightarrow> Session \<Rightarrow> Session option" where
  "run [] s = Some s"
| "run (x # xs) s = do { s' \<leftarrow> exec x s; run xs s' }"

text \<open>
  The states between two calls: the mutex is free, and a channel that has been closed is
  no longer referenced by \<^verbatim>\<open>send\<close>.
\<close>

definition wf :: "Session \<Rightarrow> bool" where
  "wf s \<longleftrightarrow> \<not> mu s \<and> (chclosed (queue s) \<longrightarrow> send_nil s)"

text \<open>Every buffered frame carries one of the two tags the source defines.\<close>

definition tagged :: "Session \<Rightarrow> bool" where
  "tagged s \<longleftrightarrow> (\<forall>f \<in> set (buf (queue s)). frameType f = textFrame \<or> frameType f = closeFrame)"

section \<open>What every call keeps\<close>

text \<open>
  Three views on the log of calls: the timers armed, the close frames handed to the
  connection, and whether the mutex was in the state the source has it in at that call
  (held for \<^verbatim>\<open>write\<close> and \<^verbatim>\<open>addPing\<close>, which lock it; free for \<^verbatim>\<open>utils.CloseWS\<close>, which
  \<^verbatim>\<open>SendMessages\<close> calls without locking).
\<close>

fun isAfterFunc :: "event \<Rightarrow> bool" where
  "isAfterFunc (AfterFunc d held) = True"
| "isAfterFunc e = False"

fun isCloseWS :: "event \<Rightarrow> bool" where
  "isCloseWS (CloseWS code reason held) = True"
| "isCloseWS e = False"

fun mutex_as_written :: "event \<Rightarrow> bool" where
  "mutex_as_written (SetWriteDeadline d held) = held"
| "mutex_as_written (TextMessage p held r) = held"
| "mutex_as_written (AfterFunc d held) = held"
| "mutex_as_written (CloseWS code reason held) = (\<not> held)"
| "mutex_as_written e = True"

text \<open>
  \<open>after s s'\<close> relates the state before a call (or a sequence of calls) to the state
  after it: \<open>kept\<close> is what holds of the fields, \<open>logged\<close> what holds of the calls
  \<open>es\<close> logged in between.
\<close>

definition kept :: "Session \<Rightarrow> Session \<Rightarrow> bool" where
  "kept s s' \<longleftrightarrow> wf s' \<and> cap (queue s') = cap (queue s)
     \<and> (closed s \<longrightarrow> closed s' \<and> pingTimer s' = pingTimer s)
     \<and> (send_nil s \<longrightarrow> send_nil s' \<and> queue s' = queue s)
     \<and> (connected s' \<longrightarrow> connected s)
     \<and> (tagged s \<longrightarrow> tagged s')
     \<and> (length (buf (queue s)) \<le> cap (queue s) \<longrightarrow> length (buf (queue s')) \<le> cap (queue s))"

definition logged :: "Session \<Rightarrow> Session \<Rightarrow> event list \<Rightarrow> bool" where
  "logged s s' es \<longleftrightarrow>
     count_list es NodeDisconnect + of_bool (connected s') \<le> (of_bool (connected s) :: nat)
     \<and> (closed s \<longrightarrow> \<not> list_ex isAfterFunc es)
     \<and> (send_nil s \<longrightarrow> \<not> list_ex isCloseWS es)
     \<and> list_all mutex_as_written es"

definition after :: "Session \<Rightarrow> Session \<Rightarrow> bool" where
  "after s s' \<longleftrightarrow> kept s s' \<and> (\<exists>es. trace s' = trace s @ es \<and> logged s s' es)"

section \<open>Concrete sessions\<close>

text \<open>
  A session whose queue holds 256 text frames, which is what 256 calls of \<^verbatim>\<open>Send\<close> on a new
  session leave when the writer has not run.
\<close>

definition full_session :: Session where
  "full_session = emptySession\<lparr>queue := (queue emptySession)\<lparr>buf :=
     replicate 256 \<lparr>frameType = textFrame, payload = ''m'', closeCode = 0, closeReason = []\<rparr>\<rparr>\<rparr>"

text \<open>
  A session whose writer is inside \<^verbatim>\<open>write\<close>: it has locked the mutex and set the write
  deadline, and the write on the socket has not returned yet.
\<close>

definition writing_session :: Session where
  "writing_session = emit (SetWriteDeadline 1700000010000000000 True) (emptySession\<lparr>mu := True\<rparr>)"

text \<open>A new session that \<^verbatim>\<open>Node.Authenticate\<close> has marked as connected.\<close>

definition connected_session :: Session where
  "connected_session = emptySession\<lparr>connected := True\<rparr>"

text \<open>
  A session on which \<^verbatim>\<open>addPing\<close> and then \<^verbatim>\<open>Close("bye", CloseNormalClosure)\<close> have run, the
  writer not yet having taken the close frame.
\<close>

definition closed_session :: Session where
  "closed_session = \<lparr>queue = \<lparr>buf = [\<lparr>frameType = closeFrame, payload = [],
        closeCode = CloseNormalClosure, closeReason = ''bye''\<rparr>], cap = 256, chclosed = False\<rparr>,
     send_nil = False, closed = True, connected = False, mu = False,
     pingTimer = Some \<lparr>duration = pingInterval, active = False\<rparr>, UID = [],
     trace = [AfterFunc pingInterval True]\<rparr>"

text \<open>
  How a run of the writer loop can stop, read off the state it leaves: blocked in the
  receive (on a nil channel, or on an empty open one), or returned because the channel was
  closed and drained, because the last call on the connection was a failed write, or
  because it was the delivery of a close frame.
\<close>

fun isFailedWrite :: "event \<Rightarrow> bool" where
  "isFailedWrite (TextMessage p held r) = (held \<and> r \<noteq> WriteOk)"
| "isFailedWrite e = False"

fun isUnlockedCloseWS :: "event \<Rightarrow> bool" where
  "isUnlockedCloseWS (CloseWS code reason held) = (\<not> held)"
| "isUnlockedCloseWS e = False"

fun writer_stops :: "progress \<Rightarrow> Session \<Rightarrow> bool" where
  "writer_stops Blocked s' =
     (send_nil s' \<or> buf (queue s') = [] \<and> \<not> chclosed (queue s'))"
| "writer_stops (Return QueueClosed) s' =
     (\<not> send_nil s' \<and> buf (queue s') = [] \<and> chclosed (queue s'))"
| "writer_stops (Return WriteError) s' = (trace s' \<noteq> [] \<and> isFailedWrite (last (trace s')))"
| "writer_stops (Return CloseDelivered) s' =
     (trace s' \<noteq> [] \<and> isUnlockedCloseWS (last (trace s')))"
| "writer_stops (Return UnknownFrame) s' = False"
| "writer_stops Continue s' = False"

text \<open>
  A session on which \<^verbatim>\<open>Send("a")\<close>, \<^verbatim>\<open>Close("bye", CloseNormalClosure)\<close> and \<^verbatim>\<open>Send("b")\<close>
  have run, the writer not yet having taken a frame.
\<close>

definition queued_session :: Session where
  "queued_session = \<lparr>queue = \<lparr>buf = [
        \<lparr>frameType = textFrame, payload = ''a'', closeCode = 0, closeReason = []\<rparr>,
        \<lparr>frameType = closeFrame, payload = [], closeCode = CloseNormalClosure,
           closeReason = ''bye''\<rparr>,
        \<lparr>frameType = textFrame, payload = ''b'', closeCode = 0, closeReason = []\<rparr>],
      cap = 256, chclosed = False\<rparr>,
     send_nil = False, closed = True, connected = False, mu = False,
     pingTimer = None, UID = [], trace = []\<rparr>"

section \<open>Basic equations\<close>

lemma bind_weak_cong: "x = y \<Longrightarrow> Option.bind x f = Option.bind y f"
  by simp

lemma relock [simp]: "\<not> mu s \<Longrightarrow> s\<lparr>mu := False\<rparr> = s"
  by (cases s) simp

lemma Lock_free [simp]: "\<not> mu s \<Longrightarrow> Lock s = Some (s\<lparr>mu := True\<rparr>)"
  by (simp add: Lock_def)

lemma Unlock_held [simp]: "mu s \<Longrightarrow> Unlock s = Some (s\<lparr>mu := False\<rparr>)"
  by (simp add: Unlock_def)

lemma Close_closed: "\<not> mu s \<Longrightarrow> closed s \<Longrightarrow> Close reason code s = Some s"
  by (simp add: Close.simps)

lemma sendFrame_nil: "\<not> mu s \<Longrightarrow> send_nil s \<Longrightarrow> sendFrame frame s = Some s"
  by (simp add: sendFrame.simps)

lemma sendFrame_room:
  "\<not> mu s \<Longrightarrow> \<not> send_nil s \<Longrightarrow> \<not> chclosed (queue s) \<Longrightarrow> length (buf (queue s)) < cap (queue s)
   \<Longrightarrow> sendFrame frame s = Some (enqueue frame s)"
  by (simp add: sendFrame.simps enqueue_def)

lemma sendFrame_full:
  "\<not> mu s \<Longrightarrow> \<not> send_nil s \<Longrightarrow> \<not> chclosed (queue s) \<Longrightarrow> \<not> length (buf (queue s)) < cap (queue s)
   \<Longrightarrow> sendFrame frame s =
       Disconnect ''Write failed'' CloseAbnormalClosure (close_chan s\<lparr>send_nil := True\<rparr>)"
  by (simp add: sendFrame.simps close_chan_def cong: bind_weak_cong)

lemma Disconnect_eq:
  "\<not> mu s \<Longrightarrow> Disconnect reason code s =
     do { s' \<leftarrow> Close reason code (emit (CallDisconnect reason code) s\<lparr>connected := False\<rparr>);
          if connected s then Some (emit NodeDisconnect s') else Some s' }"
  by (simp add: Disconnect.simps emit_def Let_def cong: bind_weak_cong)

lemma Close_open:
  "\<not> mu s \<Longrightarrow> \<not> closed s \<Longrightarrow> Close reason code s =
     do { s' \<leftarrow> sendClose reason code (s\<lparr>closed := True\<rparr>); Some (stopPingTimer s') }"
  by (simp add: Close.simps cong: bind_weak_cong)

lemma emit_simps [simp]:
  "mu (emit e s) = mu s" "closed (emit e s) = closed s" "send_nil (emit e s) = send_nil s"
  "connected (emit e s) = connected s" "queue (emit e s) = queue s"
  "pingTimer (emit e s) = pingTimer s" "UID (emit e s) = UID s" "trace (emit e s) = trace s @ [e]"
  by (simp_all add: emit_def)

lemma stopPingTimer_simps [simp]:
  "mu (stopPingTimer s) = mu s" "closed (stopPingTimer s) = closed s"
  "send_nil (stopPingTimer s) = send_nil s" "connected (stopPingTimer s) = connected s"
  "queue (stopPingTimer s) = queue s" "UID (stopPingTimer s) = UID s"
  "trace (stopPingTimer s) = trace s" "pingTimer (stopPingTimer s) = map_option Stop (pingTimer s)"
  by (simp_all add: stopPingTimer_def split: option.splits)

lemma enqueue_simps [simp]:
  "mu (enqueue f s) = mu s" "closed (enqueue f s) = closed s" "send_nil (enqueue f s) = send_nil s"
  "connected (enqueue f s) = connected s" "pingTimer (enqueue f s) = pingTimer s"
  "UID (enqueue f s) = UID s" "trace (enqueue f s) = trace s"
  "buf (queue (enqueue f s)) = buf (queue s) @ [f]" "cap (queue (enqueue f s)) = cap (queue s)"
  "chclosed (queue (enqueue f s)) = chclosed (queue s)"
  by (simp_all add: enqueue_def)

lemma close_chan_simps [simp]:
  "mu (close_chan s) = mu s" "closed (close_chan s) = closed s" "send_nil (close_chan s) = send_nil s"
  "connected (close_chan s) = connected s" "pingTimer (close_chan s) = pingTimer s"
  "UID (close_chan s) = UID s" "trace (close_chan s) = trace s"
  "buf (queue (close_chan s)) = buf (queue s)" "cap (queue (close_chan s)) = cap (queue s)"
  "chclosed (queue (close_chan s)) = True"
  by (simp_all add: close_chan_def)

lemma sendClose_nil: "\<not> mu s \<Longrightarrow> send_nil s \<Longrightarrow> sendClose reason code s = Some s"
  by (simp add: sendClose.simps sendFrame_nil)

lemma Close_nil:
  "\<not> mu s \<Longrightarrow> send_nil s \<Longrightarrow>
   Close reason code s = Some (if closed s then s else stopPingTimer (s\<lparr>closed := True\<rparr>))"
  by (simp add: Close_closed Close_open sendClose_nil)

lemma Disconnect_nil:
  "\<not> mu s \<Longrightarrow> send_nil s \<Longrightarrow>
   Disconnect reason code s =
     Some (let t = emit (CallDisconnect reason code) s\<lparr>connected := False\<rparr>;
               t' = (if closed s then t else stopPingTimer (t\<lparr>closed := True\<rparr>))
           in if connected s then emit NodeDisconnect t' else t')"
  by (simp add: Disconnect_eq Close_nil Let_def)

lemma sendFrame_overflow:
  "\<not> mu s \<Longrightarrow> \<not> send_nil s \<Longrightarrow> \<not> chclosed (queue s) \<Longrightarrow> \<not> length (buf (queue s)) < cap (queue s)
   \<Longrightarrow> sendFrame frame s =
     Some (let t = emit (CallDisconnect ''Write failed'' CloseAbnormalClosure)
                     (close_chan s\<lparr>send_nil := True\<rparr>)\<lparr>connected := False\<rparr>;
               t' = (if closed s then t else stopPingTimer (t\<lparr>closed := True\<rparr>))
           in if connected s then emit NodeDisconnect t' else t')"
  by (simp add: sendFrame_full Disconnect_nil Let_def)

lemma sendFrame_cases:
  assumes "wf s"
  obtains (nil) "send_nil s" "sendFrame frame s = Some s"
  | (room) "\<not> send_nil s" "\<not> chclosed (queue s)" "length (buf (queue s)) < cap (queue s)"
      "sendFrame frame s = Some (enqueue frame s)"
  | (full) "\<not> send_nil s" "\<not> chclosed (queue s)" "\<not> length (buf (queue s)) < cap (queue s)"
      "sendFrame frame s =
        Some (let t = emit (CallDisconnect ''Write failed'' CloseAbnormalClosure)
                     (close_chan s\<lparr>send_nil := True\<rparr>)\<lparr>connected := False\<rparr>;
               t' = (if closed s then t else stopPingTimer (t\<lparr>closed := True\<rparr>))
           in if connected s then emit NodeDisconnect t' else t')"
  using assms sendFrame_nil sendFrame_room sendFrame_overflow unfolding wf_def by blast

lemma sendFrame_overflow_props:
  assumes "\<not> mu s" "\<not> send_nil s" "\<not> chclosed (queue s)" "\<not> length (buf (queue s)) < cap (queue s)"
  obtains s' where "sendFrame frame s = Some s'" "\<not> mu s'" "send_nil s'" "closed s'"
    "\<not> connected s'" "queue s' = (queue s)\<lparr>chclosed := True\<rparr>"
    "trace s' = trace s @ CallDisconnect ''Write failed'' CloseAbnormalClosure
                # (if connected s then [NodeDisconnect] else [])"
proof -
  define s' where "s' = (let t = emit (CallDisconnect ''Write failed'' CloseAbnormalClosure)
                     (close_chan s\<lparr>send_nil := True\<rparr>)\<lparr>connected := False\<rparr>;
               t' = (if closed s then t else stopPingTimer (t\<lparr>closed := True\<rparr>))
           in if connected s then emit NodeDisconnect t' else t')"
  have "sendFrame frame s = Some s'"
    unfolding s'_def using assms by (rule sendFrame_overflow)
  moreover have "\<not> mu s'" "send_nil s'" "closed s'" "\<not> connected s'"
    "queue s' = (queue s)\<lparr>chclosed := True\<rparr>"
    "trace s' = trace s @ CallDisconnect ''Write failed'' CloseAbnormalClosure
                # (if connected s then [NodeDisconnect] else [])"
    using assms(1) by (simp_all add: s'_def Let_def close_chan_def)
  ultimately show thesis using that by blast
qed

section \<open>The relation \<open>after\<close> holds along every call\<close>

lemma after_refl: "wf s \<Longrightarrow> after s s"
  by (simp add: after_def kept_def logged_def)

lemma kept_trans: "kept s s' \<Longrightarrow> kept s' s'' \<Longrightarrow> kept s s''"
  unfolding kept_def by (intro conjI impI) simp_all

lemma logged_trans:
  assumes "kept s s'" "logged s s' es" "logged s' s'' es'"
  shows "logged s s'' (es @ es')"
proof -
  have mono: "closed s \<Longrightarrow> closed s'" "send_nil s \<Longrightarrow> send_nil s'"
    using assms(1) by (simp_all add: kept_def)
  have "count_list (es @ es') NodeDisconnect + of_bool (connected s'') \<le> (of_bool (connected s) :: nat)"
    using assms(2,3) by (simp add: logged_def)
  moreover have "closed s \<longrightarrow> \<not> list_ex isAfterFunc (es @ es')"
    using assms(2,3) mono(1) by (simp add: logged_def)
  moreover have "send_nil s \<longrightarrow> \<not> list_ex isCloseWS (es @ es')"
    using assms(2,3) mono(2) by (simp add: logged_def)
  moreover have "list_all mutex_as_written (es @ es')"
    using assms(2,3) by (simp add: logged_def)
  ultimately show ?thesis by (simp add: logged_def)
qed

lemma after_trans:
  assumes "after s s'" and "after s' s''"
  shows "after s s''"
proof -
  from assms(1) obtain es where es: "kept s s'" "trace s' = trace s @ es" "logged s s' es"
    unfolding after_def by blast
  from assms(2) obtain es' where es': "kept s' s''" "trace s'' = trace s' @ es'" "logged s' s'' es'"
    unfolding after_def by blast
  have "trace s'' = trace s @ (es @ es')" using es(2) es'(2) by simp
  moreover have "logged s s'' (es @ es')" using es(1,3) es'(3) by (rule logged_trans)
  moreover have "kept s s''" using es(1) es'(1) by (rule kept_trans)
  ultimately show ?thesis unfolding after_def by blast
qed

lemma afterI: "kept s s' \<Longrightarrow> trace s' = trace s @ es \<Longrightarrow> logged s s' es \<Longrightarrow> after s s'"
  unfolding after_def by blast

lemma sendFrame_after:
  assumes "wf s" and "frameType frame = textFrame \<or> frameType frame = closeFrame"
  shows "\<exists>s'. sendFrame frame s = Some s' \<and> after s s'"
  using assms(1)
proof (cases rule: sendFrame_cases [where frame = frame])
  case nil
  then show ?thesis using assms(1) by (simp add: after_refl)
next
  case room
  have "kept s (enqueue frame s)"
    using assms room(1-3) by (auto simp: kept_def wf_def tagged_def)
  moreover have "logged s (enqueue frame s) []"
    by (simp add: logged_def)
  ultimately show ?thesis using room(4) by (auto intro: afterI [where es = "[]"])
next
  case full
  let ?es = "CallDisconnect ''Write failed'' CloseAbnormalClosure
              # (if connected s then [NodeDisconnect] else [])"
  obtain s' where s': "sendFrame frame s = Some s'" "trace s' = trace s @ ?es"
    "queue s' = (queue s)\<lparr>chclosed := True\<rparr>" "send_nil s'" "closed s'" "\<not> connected s'" "\<not> mu s'"
    "closed s \<Longrightarrow> pingTimer s' = pingTimer s"
    using full(4) assms(1) by (auto simp: Let_def wf_def close_chan_def)
  have "kept s s'"
    using s'(3-8) full(1) by (auto simp: kept_def wf_def tagged_def)
  moreover have "logged s s' ?es"
    using s'(6) full(1) by (simp add: logged_def)
  ultimately show ?thesis using s'(1,2) by (auto intro: afterI)
qed

lemma Close_after:
  assumes "wf s"
  shows "\<exists>s'. Close reason code s = Some s' \<and> after s s' \<and> closed s'"
proof (cases "closed s")
  case True
  then show ?thesis using assms by (simp add: Close_closed wf_def after_refl)
next
  case False
  let ?t = "s\<lparr>closed := True\<rparr>"
  let ?f = "\<lparr>frameType = closeFrame, payload = [], closeCode = code, closeReason = reason\<rparr>"
  have "wf ?t" using assms by (simp add: wf_def)
  then obtain t' where t': "sendFrame ?f ?t = Some t'" "after ?t t'"
    using sendFrame_after [of ?t ?f] by auto
  from t'(2) obtain es where es: "kept ?t t'" "trace t' = trace ?t @ es" "logged ?t t' es"
    unfolding after_def by blast
  have eq: "Close reason code s = Some (stopPingTimer t')"
    using assms False t'(1) by (simp add: Close_open sendClose.simps wf_def)
  have "kept s (stopPingTimer t')"
    using es(1) False unfolding kept_def wf_def tagged_def by simp
  moreover have "logged s (stopPingTimer t') es"
    using es(3) False unfolding logged_def by simp
  moreover have "closed (stopPingTimer t')"
    using es(1) by (simp add: kept_def)
  ultimately show ?thesis using eq es(2) by (auto intro: afterI)
qed

lemma Disconnect_after:
  assumes "wf s"
  shows "\<exists>s'. Disconnect reason code s = Some s' \<and> after s s' \<and> closed s' \<and> \<not> connected s'"
proof -
  let ?t = "emit (CallDisconnect reason code) s\<lparr>connected := False\<rparr>"
  have "wf ?t" using assms by (simp add: wf_def)
  then obtain t' where t': "Close reason code ?t = Some t'" "after ?t t'" "closed t'"
    using Close_after [of ?t] by blast
  from t'(2) obtain es where es: "kept ?t t'" "trace t' = trace ?t @ es" "logged ?t t' es"
    unfolding after_def by blast
  let ?s' = "if connected s then emit NodeDisconnect t' else t'"
  let ?es = "CallDisconnect reason code # es @ (if connected s then [NodeDisconnect] else [])"
  have eq: "Disconnect reason code s = Some ?s'"
    using assms t'(1) by (simp add: Disconnect_eq wf_def)
  have nc: "\<not> connected t'" using es(1) by (simp add: kept_def)
  have "kept s ?s'"
    using es(1) unfolding kept_def wf_def tagged_def by simp
  moreover have "trace ?s' = trace s @ ?es"
    using es(2) by simp
  moreover have "logged s ?s' ?es"
    using es(3) nc unfolding logged_def by simp
  moreover have "closed ?s'" "\<not> connected ?s'"
    using t'(3) nc by simp_all
  ultimately show ?thesis using eq by (auto intro: afterI)
qed

lemma write_ws_eq:
  "\<not> mu s \<Longrightarrow> write_ws message deadline r s =
     Some (r \<noteq> WriteOk, emit (TextMessage message True r) (emit (SetWriteDeadline deadline True) s))"
  by (simp add: write_ws_def emit_def)

lemma write_ws_after:
  assumes "wf s"
  shows "after s (emit (TextMessage message True r) (emit (SetWriteDeadline deadline True) s))"
proof (rule afterI [where es = "[SetWriteDeadline deadline True, TextMessage message True r]"])
  show "kept s (emit (TextMessage message True r) (emit (SetWriteDeadline deadline True) s))"
    using assms by (simp add: kept_def wf_def tagged_def)
qed (simp_all add: logged_def)

lemma addPing_eq:
  "\<not> mu s \<Longrightarrow> addPing s = Some (if closed s then s
     else emit (AfterFunc pingInterval True) s
            \<lparr>pingTimer := Some \<lparr>duration = pingInterval, active = True\<rparr>\<rparr>)"
  by (simp add: addPing_def emit_def)

lemma addPing_after:
  assumes "wf s"
  shows "\<exists>s'. addPing s = Some s' \<and> after s s'"
proof (cases "closed s")
  case True
  then show ?thesis using assms by (simp add: addPing_eq wf_def after_refl)
next
  case False
  let ?s' = "emit (AfterFunc pingInterval True) s
            \<lparr>pingTimer := Some \<lparr>duration = pingInterval, active = True\<rparr>\<rparr>"
  have "kept s ?s'" using assms False by (simp add: kept_def wf_def tagged_def)
  moreover have "logged s ?s' [AfterFunc pingInterval True]"
    using False by (simp add: logged_def)
  ultimately have "after s ?s'" by (auto intro: afterI)
  then show ?thesis using assms False by (simp add: addPing_eq wf_def)
qed

lemma sendPing_after:
  assumes "wf s"
  shows "\<exists>s'. sendPing now now' r s = Some s' \<and> after s s'"
proof -
  let ?t = "emit (TextMessage (newPingMessage now') True r)
             (emit (SetWriteDeadline (now + pingInterval div 2) True) s)"
  have t: "after s ?t" using assms by (rule write_ws_after)
  then have "wf ?t" by (simp add: after_def kept_def)
  then obtain a b where "addPing ?t = Some a" "after ?t a"
    "Disconnect ''Ping failed'' CloseAbnormalClosure ?t = Some b" "after ?t b"
    using addPing_after [of ?t] Disconnect_after [of ?t] by blast
  then show ?thesis
    using assms t
    by (cases "r = WriteOk") (auto simp: sendPing_def write_ws_eq wf_def Let_def intro: after_trans)
qed

lemma pass_nil: "send_nil s \<Longrightarrow> SendMessages_pass now r s = Some (Blocked, s)"
  by (simp add: SendMessages_pass_def)

lemma pass_empty:
  "\<not> send_nil s \<Longrightarrow> buf (queue s) = [] \<Longrightarrow>
   SendMessages_pass now r s = Some (if chclosed (queue s) then Return QueueClosed else Blocked, s)"
  by (simp add: SendMessages_pass_def)

lemma pass_text:
  "\<not> mu s \<Longrightarrow> \<not> send_nil s \<Longrightarrow> buf (queue s) = m # rest \<Longrightarrow> frameType m = textFrame \<Longrightarrow>
   SendMessages_pass now r s =
     Some (if r = WriteOk then Continue else Return WriteError,
           emit (TextMessage (payload m) True r)
             (emit (SetWriteDeadline (now + writeWait) True)
               (s\<lparr>queue := (queue s)\<lparr>buf := rest\<rparr>\<rparr>)))"
  by (simp add: SendMessages_pass_def write_ws_eq)

lemma pass_close:
  "\<not> mu s \<Longrightarrow> \<not> send_nil s \<Longrightarrow> buf (queue s) = m # rest \<Longrightarrow> frameType m = closeFrame \<Longrightarrow>
   SendMessages_pass now r s =
     Some (Return CloseDelivered,
           emit (CloseWS (closeCode m) (closeReason m) False) (s\<lparr>queue := (queue s)\<lparr>buf := rest\<rparr>\<rparr>))"
  by (simp add: SendMessages_pass_def textFrame_def closeFrame_def)

lemma pass_unknown:
  "\<not> send_nil s \<Longrightarrow> buf (queue s) = m # rest \<Longrightarrow> frameType m \<noteq> textFrame \<Longrightarrow>
   frameType m \<noteq> closeFrame \<Longrightarrow>
   SendMessages_pass now r s = Some (Return UnknownFrame, s\<lparr>queue := (queue s)\<lparr>buf := rest\<rparr>\<rparr>)"
  by (simp add: SendMessages_pass_def)

lemma dequeue_after:
  assumes "wf s" "\<not> send_nil s" "buf (queue s) = m # rest"
  shows "after s (s\<lparr>queue := (queue s)\<lparr>buf := rest\<rparr>\<rparr>)"
proof (rule afterI [where es = "[]"])
  show "kept s (s\<lparr>queue := (queue s)\<lparr>buf := rest\<rparr>\<rparr>)"
    using assms by (auto simp: kept_def wf_def tagged_def)
qed (simp_all add: logged_def)

lemma emit_CloseWS_after:
  assumes "wf s" "\<not> send_nil s"
  shows "after s (emit (CloseWS code reason False) s)"
proof (rule afterI [where es = "[CloseWS code reason False]"])
  show "kept s (emit (CloseWS code reason False) s)"
    using assms by (auto simp: kept_def wf_def tagged_def)
qed (use assms in \<open>simp_all add: logged_def\<close>)

lemma pass_after:
  assumes "wf s"
  shows "\<exists>p s'. SendMessages_pass now r s = Some (p, s') \<and> after s s'"
proof (cases "send_nil s")
  case True
  then show ?thesis using assms by (simp add: pass_nil after_refl)
next
  case False
  show ?thesis
  proof (cases "buf (queue s)")
    case Nil
    then show ?thesis using assms False by (simp add: pass_empty after_refl)
  next
    case (Cons m rest)
    let ?d = "s\<lparr>queue := (queue s)\<lparr>buf := rest\<rparr>\<rparr>"
    have d: "after s ?d" using assms False Cons by (rule dequeue_after)
    then have wd: "wf ?d" by (simp add: after_def kept_def)
    have nm: "\<not> mu s" using assms by (simp add: wf_def)
    consider "frameType m = textFrame" | "frameType m = closeFrame"
      | "frameType m \<noteq> textFrame" "frameType m \<noteq> closeFrame" by blast
    then show ?thesis
    proof cases
      case 1
      have "after ?d (emit (TextMessage (payload m) True r)
             (emit (SetWriteDeadline (now + writeWait) True) ?d))"
        using wd by (rule write_ws_after)
      with d have "after s (emit (TextMessage (payload m) True r)
             (emit (SetWriteDeadline (now + writeWait) True) ?d))"
        by (rule after_trans)
      then show ?thesis using pass_text [OF nm False Cons 1, of now r] by simp
    next
      case 2
      have "after ?d (emit (CloseWS (closeCode m) (closeReason m) False) ?d)"
        using wd False by (intro emit_CloseWS_after) simp_all
      with d have "after s (emit (CloseWS (closeCode m) (closeReason m) False) ?d)"
        by (rule after_trans)
      then show ?thesis using pass_close [OF nm False Cons 2, of now r] by simp
    next
      case 3
      then show ?thesis using pass_unknown [OF False Cons 3, of now r] d by simp
    qed
  qed
qed

lemma loop_after:
  "wf s \<Longrightarrow> \<exists>p s'. SendMessages_loop env i s = Some (p, s') \<and> after s s' \<and> p \<noteq> Continue"
proof (induction env i s rule: SendMessages_loop.induct)
  case (1 env i s)
  obtain p t where pt: "SendMessages_pass (fst (env i)) (snd (env i)) s = Some (p, t)" "after s t"
    using pass_after [OF "1.prems"] by blast
  show ?case
  proof (cases "p = Continue")
    case True
    have "wf t" using pt(2) by (simp add: after_def kept_def)
    then obtain p' s' where "SendMessages_loop env (Suc i) t = Some (p', s')" "after t s'"
      "p' \<noteq> Continue"
      using "1.IH" [OF pt(1) refl True] by blast
    then show ?thesis
      using pt True by (subst SendMessages_loop.simps) (auto intro: after_trans)
  next
    case False
    then show ?thesis using pt by (subst SendMessages_loop.simps) simp
  qed
qed

lemma SendMessages_after:
  assumes "wf s"
  shows "\<exists>p s'. SendMessages env s = Some (p, s') \<and> after s s' \<and> p \<noteq> Continue"
proof -
  obtain p t where pt: "SendMessages_loop env 0 s = Some (p, t)" "after s t" "p \<noteq> Continue"
    using loop_after [OF assms] by blast
  have "wf t" using pt(2) by (simp add: after_def kept_def)
  then obtain s' where "Disconnect ''Write Failed'' CloseAbnormalClosure t = Some s'" "after t s'"
    using Disconnect_after by blast
  then show ?thesis
    using pt by (auto simp: SendMessages_def intro: after_trans)
qed

lemma Send_after: "wf s \<Longrightarrow> \<exists>s'. Send msg s = Some s' \<and> after s s'"
  unfolding Send_def by (rule sendFrame_after) simp_all

lemma exec_after:
  assumes "wf s"
  shows "\<exists>s'. exec x s = Some s' \<and> after s s'"
proof (cases x)
  case (Op_Send msg)
  then show ?thesis using Send_after [OF assms, of msg] by simp
next
  case (Op_Close reason code)
  then show ?thesis using Close_after [OF assms, of reason code] by auto
next
  case (Op_Disconnect reason code)
  then show ?thesis using Disconnect_after [OF assms, of reason code] by auto
next
  case Op_addPing
  then show ?thesis using addPing_after [OF assms] by simp
next
  case (Op_sendPing now now' r)
  then show ?thesis using sendPing_after [OF assms, of now now' r] by simp
next
  case (Op_SendMessages env)
  then show ?thesis using SendMessages_after [OF assms, of env] by auto
next
  case (Op_ReadError err)
  then show ?thesis
    using Disconnect_after [OF assms, of "''Read closed''" CloseNormalClosure]
      Disconnect_after [OF assms, of "''Read failed''" CloseAbnormalClosure] by auto
qed

lemma run_after: "wf s \<Longrightarrow> \<exists>s'. run xs s = Some s' \<and> after s s'"
proof (induction xs arbitrary: s)
  case Nil
  then show ?case by (simp add: after_refl)
next
  case (Cons x xs)
  obtain t where t: "exec x s = Some t" "after s t" using exec_after [OF Cons.prems] by blast
  then have "wf t" by (simp add: after_def kept_def)
  then obtain s' where "run xs t = Some s'" "after t s'" using Cons.IH by blast
  then show ?case using t by (auto intro: after_trans)
qed

section \<open>Claims\<close>

lemma full_session_reached: "run (replicate 256 (Op_Send ''m'')) emptySession = Some full_session"
  by code_simp

lemma Send_mutex_free:
  assumes "wf s" and "cap (queue s) = 256" and "length (buf (queue s)) \<le> 256"
  shows "\<exists>s'. Send msg s = Some s' \<and> wf s' \<and> length (buf (queue s')) \<le> 256
     \<and> (\<not> send_nil s \<and> length (buf (queue s)) < 256 \<longrightarrow>
          s' = enqueue \<lparr>frameType = textFrame, payload = msg, closeCode = 0, closeReason = []\<rparr> s
          \<and> buf (queue s') = buf (queue s)
               @ [\<lparr>frameType = textFrame, payload = msg, closeCode = 0, closeReason = []\<rparr>])
     \<and> (\<not> send_nil s \<and> length (buf (queue s)) = 256 \<longrightarrow>
          chclosed (queue s') \<and> send_nil s' \<and> closed s' \<and> buf (queue s') = buf (queue s)
          \<and> trace s' = trace s @ CallDisconnect ''Write failed'' CloseAbnormalClosure
                # (if connected s then [NodeDisconnect] else [])
          \<and> (\<forall>msg'. Send msg' s' = Some s'))"
  using assms(1)
proof (cases rule: sendFrame_cases
    [where frame = "\<lparr>frameType = textFrame, payload = msg, closeCode = 0, closeReason = []\<rparr>"])
  case nil
  then show ?thesis using assms by (simp add: Send_def)
next
  case room
  then show ?thesis using assms by (simp add: Send_def wf_def)
next
  case full
  let ?f = "\<lparr>frameType = textFrame, payload = msg, closeCode = 0, closeReason = []\<rparr>"
  obtain s' where s': "sendFrame ?f s = Some s'" "\<not> mu s'" "send_nil s'" "closed s'"
    "queue s' = (queue s)\<lparr>chclosed := True\<rparr>"
    "trace s' = trace s @ CallDisconnect ''Write failed'' CloseAbnormalClosure
                # (if connected s then [NodeDisconnect] else [])"
    using full(4) assms(1) by (auto simp: Let_def wf_def close_chan_def)
  have "\<forall>msg'. Send msg' s' = Some s'"
    using s'(2,3) by (simp add: Send_def sendFrame_nil)
  then show ?thesis
    using s' assms full(3) by (simp add: Send_def wf_def)
qed

lemma Send_mutex_held: "mu s \<Longrightarrow> Send msg s = None"
  by (simp add: Send_def sendFrame.simps Lock_def)

text \<open>
  C1, as stated, fails: \<^verbatim>\<open>sendFrame\<close> begins with \<^verbatim>\<open>s.mu.Lock()\<close>, and \<^verbatim>\<open>write\<close> holds that
  mutex from before \<^verbatim>\<open>SetWriteDeadline\<close> until the write on the socket has returned. A
  \<^verbatim>\<open>Send\<close> called in between waits for the mutex and does not return while it is held.
  The session of the counterexample is the one inside \<^verbatim>\<open>write\<close> on a new session, after
  \<^verbatim>\<open>SetWriteDeadline\<close> and before the frame is written.
\<close>

theorem Send_waits_for_mutex_counterexample:
  "map_option snd (write_ws ''a'' 1700000010000000000 WriteOk emptySession)
     = Unlock (emit (TextMessage ''a'' True WriteOk) writing_session)
   \<and> mu writing_session
   \<and> trace writing_session = [SetWriteDeadline 1700000010000000000 True]
   \<and> Send ''late'' writing_session = None"
  by (simp add: writing_session_def emptySession_def write_ws_def Lock_def Unlock_def emit_def
      Send_def sendFrame.simps)

text \<open>
  C1, amended. While the session mutex is held, \<^verbatim>\<open>Send\<close> waits in \<^verbatim>\<open>s.mu.Lock()\<close> and does
  not return. Called on a session between two calls (the mutex free), with whatever
  payload, \<^verbatim>\<open>Send\<close> returns: it never waits for room in the queue and has no error to
  return. The queue of capacity 256 never holds more than 256 frames. With room, the text
  frame is appended. When the queue is full at the non-blocking send, the channel is closed
  and \<^verbatim>\<open>send\<close> set to nil, \<^verbatim>\<open>Disconnect("Write failed", CloseAbnormalClosure)\<close> is called
  exactly once (ordering the RPC Disconnect if the session was connected) and marks the
  session closed, no frame is added to the buffer, and every later \<^verbatim>\<open>Send\<close> returns at once
  and changes nothing, so the overflow is acted on once.
\<close>

theorem Send_waits_only_for_mutex:
  "(mu s \<longrightarrow> Send msg s = None)
   \<and> (wf s \<and> cap (queue s) = 256 \<and> length (buf (queue s)) \<le> 256 \<longrightarrow>
        (\<exists>s'. Send msg s = Some s' \<and> wf s' \<and> length (buf (queue s')) \<le> 256
          \<and> (\<not> send_nil s \<and> length (buf (queue s)) < 256 \<longrightarrow>
               s' = enqueue \<lparr>frameType = textFrame, payload = msg, closeCode = 0, closeReason = []\<rparr> s
               \<and> buf (queue s') = buf (queue s)
                    @ [\<lparr>frameType = textFrame, payload = msg, closeCode = 0, closeReason = []\<rparr>])
          \<and> (\<not> send_nil s \<and> length (buf (queue s)) = 256 \<longrightarrow>
               chclosed (queue s') \<and> send_nil s' \<and> closed s' \<and> buf (queue s') = buf (queue s)
               \<and> trace s' = trace s @ CallDisconnect ''Write failed'' CloseAbnormalClosure
                     # (if connected s then [NodeDisconnect] else [])
               \<and> (\<forall>msg'. Send msg' s' = Some s'))))"
  using Send_mutex_held [of s msg] Send_mutex_free [of s msg] by blast

theorem Send_waits_only_for_mutex_witness:
  "mu writing_session \<and> Send ''late'' writing_session = None
   \<and> \<not> mu full_session \<and> \<not> chclosed (queue full_session) \<and> \<not> send_nil full_session
   \<and> cap (queue full_session) = 256 \<and> length (buf (queue full_session)) = 256
   \<and> map_option mu (Send ''late'' full_session) = Some False
   \<and> map_option send_nil (Send ''late'' full_session) = Some True
   \<and> map_option closed (Send ''late'' full_session) = Some True
   \<and> map_option chclosed (map_option queue (Send ''late'' full_session)) = Some True
   \<and> map_option buf (map_option queue (Send ''late'' full_session))
       = Some (buf (queue full_session))
   \<and> map_option trace (Send ''late'' full_session)
       = Some [CallDisconnect ''Write failed'' CloseAbnormalClosure]"
proof -
  have m: "mu writing_session" by (simp add: writing_session_def)
  have 1: "Send ''late'' writing_session = None"
    using Send_waits_only_for_mutex [of writing_session "''late''"] m by blast
  have f: "wf full_session \<and> cap (queue full_session) = 256
      \<and> length (buf (queue full_session)) \<le> 256"
    "\<not> send_nil full_session \<and> length (buf (queue full_session)) = 256"
    "\<not> mu full_session" "\<not> chclosed (queue full_session)" "trace full_session = []"
    by (simp_all add: full_session_def emptySession_def wf_def)
  obtain s' where s': "Send ''late'' full_session = Some s'" "wf s'" "chclosed (queue s')"
    "send_nil s'" "closed s'" "buf (queue s') = buf (queue full_session)"
    "trace s' = trace full_session @ CallDisconnect ''Write failed'' CloseAbnormalClosure
                # (if connected full_session then [NodeDisconnect] else [])"
    using Send_waits_only_for_mutex [of full_session "''late''"] f(1,2) by blast
  have c: "\<not> connected full_session" by (simp add: full_session_def emptySession_def)
  show ?thesis
    using m 1 f s' c by (simp add: wf_def)
qed

lemma Disconnect_count:
  assumes "wf s"
  shows "\<exists>s' t es. Close reason code (emit (CallDisconnect reason code) s\<lparr>connected := False\<rparr>) = Some t
     \<and> Disconnect reason code s = Some s'
     \<and> s' = (if connected s then emit NodeDisconnect t else t)
     \<and> wf s' \<and> closed s' \<and> \<not> connected s' \<and> trace s' = trace s @ es
     \<and> count_list es NodeDisconnect = (if connected s then 1 else 0)"
proof -
  let ?t = "emit (CallDisconnect reason code) s\<lparr>connected := False\<rparr>"
  have "wf ?t" using assms by (simp add: wf_def)
  then obtain t' where t': "Close reason code ?t = Some t'" "after ?t t'" "closed t'"
    using Close_after [of ?t] by blast
  from t'(2) obtain es where es: "kept ?t t'" "trace t' = trace ?t @ es" "logged ?t t' es"
    unfolding after_def by blast
  have c0: "count_list es NodeDisconnect = 0" using es(3) by (simp add: logged_def)
  have nc: "\<not> connected t'" "wf t'" using es(1) by (simp_all add: kept_def)
  let ?s' = "if connected s then emit NodeDisconnect t' else t'"
  have "Disconnect reason code s = Some ?s'"
    using assms t'(1) by (simp add: Disconnect_eq wf_def)
  moreover have "trace ?s' = trace s @ (CallDisconnect reason code # es
      @ (if connected s then [NodeDisconnect] else []))"
    using es(2) by simp
  moreover have "count_list (CallDisconnect reason code # es
      @ (if connected s then [NodeDisconnect] else [])) NodeDisconnect = (if connected s then 1 else 0)"
    using c0 by simp
  moreover have "wf ?s'" "closed ?s'" "\<not> connected ?s'"
    using nc t'(3) by (simp_all add: wf_def)
  ultimately show ?thesis using t'(1) by blast
qed

text \<open>
  C2. From any session between two calls, any sequence of \<^verbatim>\<open>Disconnect\<close> calls returns and
  orders the RPC Disconnect (\<^verbatim>\<open>s.node.Disconnect(s)\<close>) exactly once if \<^verbatim>\<open>connected\<close> was
  true before the first call and the sequence is not empty, and never otherwise: after the
  first call \<^verbatim>\<open>connected\<close> is false, so a second call orders nothing. Every call of
  \<^verbatim>\<open>Disconnect\<close> is a call of \<^verbatim>\<open>Close\<close> with the same reason and code, made after
  \<^verbatim>\<open>connected\<close> has been cleared, and the session is closed afterwards. Along any sequence
  of calls of the entry points of a session, whichever of them reach \<^verbatim>\<open>Disconnect\<close>, the RPC
  Disconnect is ordered at most once, and not at all when \<^verbatim>\<open>connected\<close> is false at the
  start: no function of this file sets \<^verbatim>\<open>connected\<close> to true.
\<close>

theorem Disconnect_orders_rpc_once:
  assumes "wf s"
  shows "(\<exists>s' es. run (map (\<lambda>(reason, code). Op_Disconnect reason code) calls) s = Some s'
           \<and> trace s' = trace s @ es
           \<and> count_list es NodeDisconnect = (if connected s \<and> calls \<noteq> [] then 1 else 0)
           \<and> (calls \<noteq> [] \<longrightarrow> closed s' \<and> \<not> connected s'))
       \<and> (\<exists>t. Close reason code (emit (CallDisconnect reason code) s\<lparr>connected := False\<rparr>) = Some t
           \<and> Disconnect reason code s = Some (if connected s then emit NodeDisconnect t else t))
       \<and> (\<exists>s' es. run xs s = Some s' \<and> trace s' = trace s @ es
           \<and> count_list es NodeDisconnect \<le> (if connected s then 1 else 0))"
proof (intro conjI)
  show "\<exists>s' es. run (map (\<lambda>(reason, code). Op_Disconnect reason code) calls) s = Some s'
           \<and> trace s' = trace s @ es
           \<and> count_list es NodeDisconnect = (if connected s \<and> calls \<noteq> [] then 1 else 0)
           \<and> (calls \<noteq> [] \<longrightarrow> closed s' \<and> \<not> connected s')"
    using assms
  proof (induction calls arbitrary: s)
    case Nil
    then show ?case by simp
  next
    case (Cons call calls)
    obtain reason code where call: "call = (reason, code)" by (cases call)
    obtain t es where t: "Disconnect reason code s = Some t" "wf t" "closed t" "\<not> connected t"
      "trace t = trace s @ es" "count_list es NodeDisconnect = (if connected s then 1 else 0)"
      using Disconnect_count [OF Cons.prems, of reason code] by blast
    obtain s' es' where s': "run (map (\<lambda>(reason, code). Op_Disconnect reason code) calls) t = Some s'"
      "trace s' = trace t @ es'" "count_list es' NodeDisconnect = 0"
      "calls \<noteq> [] \<longrightarrow> closed s' \<and> \<not> connected s'"
      using Cons.IH [OF t(2)] t(4) by auto
    have "calls = [] \<Longrightarrow> s' = t" using s'(1) by simp
    then have "closed s' \<and> \<not> connected s'" using s'(4) t(3,4) by blast
    moreover have "trace s' = trace s @ (es @ es')" using t(5) s'(2) by simp
    moreover have "count_list (es @ es') NodeDisconnect = (if connected s then 1 else 0)"
      using t(6) s'(3) by simp
    ultimately show ?case using call t(1) s'(1) by auto
  qed
next
  show "\<exists>t. Close reason code (emit (CallDisconnect reason code) s\<lparr>connected := False\<rparr>) = Some t
           \<and> Disconnect reason code s = Some (if connected s then emit NodeDisconnect t else t)"
    using Disconnect_count [OF assms, of reason code] by blast
next
  obtain s' es where r: "run xs s = Some s'" "trace s' = trace s @ es" "logged s s' es"
    using run_after [OF assms, of xs] unfolding after_def by blast
  have "count_list es NodeDisconnect \<le> (if connected s then 1 else 0)"
    using r(3) by (cases "connected s"; cases "connected s'") (simp_all add: logged_def)
  then show "\<exists>s' es. run xs s = Some s' \<and> trace s' = trace s @ es
           \<and> count_list es NodeDisconnect \<le> (if connected s then 1 else 0)"
    using r(1,2) by blast
qed

theorem Disconnect_orders_rpc_once_witness:
  "\<not> mu connected_session \<and> \<not> chclosed (queue connected_session) \<and> connected connected_session
   \<and> map_option trace (run [Op_Disconnect ''Read closed'' CloseNormalClosure,
                          Op_Disconnect ''Write Failed'' CloseAbnormalClosure] connected_session)
      = Some [CallDisconnect ''Read closed'' CloseNormalClosure, NodeDisconnect,
              CallDisconnect ''Write Failed'' CloseAbnormalClosure]
   \<and> map_option closed (run [Op_Disconnect ''Read closed'' CloseNormalClosure,
                          Op_Disconnect ''Write Failed'' CloseAbnormalClosure] connected_session)
      = Some True"
proof -
  have "map_option trace (run [Op_Disconnect ''Read closed'' CloseNormalClosure,
                          Op_Disconnect ''Write Failed'' CloseAbnormalClosure] connected_session)
      = Some [CallDisconnect ''Read closed'' CloseNormalClosure, NodeDisconnect,
              CallDisconnect ''Write Failed'' CloseAbnormalClosure]"
    by code_simp
  then show ?thesis
    using Disconnect_orders_rpc_once [of connected_session
      "[(''Read closed'', CloseNormalClosure), (''Write Failed'', CloseAbnormalClosure)]"]
    by (auto simp: connected_session_def emptySession_def wf_def)
qed

lemma closed_session_reached:
  "run [Op_addPing, Op_Close ''bye'' CloseNormalClosure] emptySession = Some closed_session"
  by code_simp

text \<open>
  C3, as stated, fails: \<^verbatim>\<open>sendFrame\<close> tests \<^verbatim>\<open>s.send == nil\<close> and never reads \<^verbatim>\<open>closed\<close>,
  so a \<^verbatim>\<open>Send\<close> on a closed session whose queue has room appends its text frame.
\<close>

theorem Send_after_Close_counterexample:
  "closed closed_session
   \<and> map_option buf (map_option queue (Send ''late'' closed_session))
       = Some (buf (queue closed_session)
               @ [\<lparr>frameType = textFrame, payload = ''late'', closeCode = 0, closeReason = []\<rparr>])
   \<and> map_option queue (Send ''late'' closed_session) \<noteq> Some (queue closed_session)"
  by (simp add: closed_session_def Send_def sendFrame_room enqueue_def)

text \<open>
  C3, amended. Once \<^verbatim>\<open>closed\<close> is true no further close frame enters the queue: \<^verbatim>\<open>Close\<close>
  returns at once and changes nothing, and \<^verbatim>\<open>Disconnect\<close> leaves the queue as it is.
  \<^verbatim>\<open>Send\<close> is not gated by \<^verbatim>\<open>closed\<close>: it leaves the queue unchanged when \<^verbatim>\<open>send\<close> is nil
  (after an overflow), and with room in the queue it still appends its text frame. On a
  full queue it takes the overflow branch: the buffer stays as it is and the channel is
  closed.
\<close>

theorem closed_gates_Close_not_Send:
  assumes "wf s" and "closed s"
  shows "Close reason code s = Some s
     \<and> (\<exists>s'. Disconnect reason code s = Some s' \<and> queue s' = queue s)
     \<and> (send_nil s \<longrightarrow> Send msg s = Some s)
     \<and> (\<not> send_nil s \<and> length (buf (queue s)) < cap (queue s) \<longrightarrow>
          Send msg s = Some (enqueue
            \<lparr>frameType = textFrame, payload = msg, closeCode = 0, closeReason = []\<rparr> s))
     \<and> (\<not> send_nil s \<and> length (buf (queue s)) < cap (queue s) \<longrightarrow>
          map_option buf (map_option queue (Send msg s)) = Some (buf (queue s)
            @ [\<lparr>frameType = textFrame, payload = msg, closeCode = 0, closeReason = []\<rparr>]))
     \<and> (\<not> send_nil s \<and> \<not> length (buf (queue s)) < cap (queue s) \<longrightarrow>
          (\<exists>s'. Send msg s = Some s' \<and> send_nil s' \<and> chclosed (queue s')
             \<and> buf (queue s') = buf (queue s)))"
proof -
  have nm: "\<not> mu s" and nc: "\<not> send_nil s \<Longrightarrow> \<not> chclosed (queue s)"
    using assms(1) by (auto simp: wf_def)
  have 1: "Close reason code s = Some s"
    using nm assms(2) by (rule Close_closed)
  have 2: "\<exists>s'. Disconnect reason code s = Some s' \<and> queue s' = queue s"
    using nm assms(2) by (simp add: Disconnect_eq Close_closed)
  have 3: "send_nil s \<longrightarrow> Send msg s = Some s"
    using nm by (simp add: Send_def sendFrame_nil)
  have 4: "\<not> send_nil s \<and> length (buf (queue s)) < cap (queue s) \<longrightarrow>
          Send msg s = Some (enqueue
            \<lparr>frameType = textFrame, payload = msg, closeCode = 0, closeReason = []\<rparr> s)"
    using nm nc by (simp add: Send_def sendFrame_room)
  have 5: "\<not> send_nil s \<and> length (buf (queue s)) < cap (queue s) \<longrightarrow>
          map_option buf (map_option queue (Send msg s)) = Some (buf (queue s)
            @ [\<lparr>frameType = textFrame, payload = msg, closeCode = 0, closeReason = []\<rparr>])"
    using nm nc by (simp add: Send_def sendFrame_room)
  have 6: "\<not> send_nil s \<and> \<not> length (buf (queue s)) < cap (queue s) \<longrightarrow>
          (\<exists>s'. Send msg s = Some s' \<and> send_nil s' \<and> chclosed (queue s')
             \<and> buf (queue s') = buf (queue s))"
  proof
    assume a: "\<not> send_nil s \<and> \<not> length (buf (queue s)) < cap (queue s)"
    then obtain s' where "sendFrame
        \<lparr>frameType = textFrame, payload = msg, closeCode = 0, closeReason = []\<rparr> s = Some s'"
      "send_nil s'" "queue s' = (queue s)\<lparr>chclosed := True\<rparr>"
      using sendFrame_overflow_props [OF nm _ nc] by metis
    then show "\<exists>s'. Send msg s = Some s' \<and> send_nil s' \<and> chclosed (queue s')
             \<and> buf (queue s') = buf (queue s)"
      by (simp add: Send_def)
  qed
  show ?thesis using 1 2 3 4 5 6 by blast
qed

theorem closed_gates_Close_not_Send_witness:
  "\<not> mu closed_session \<and> \<not> chclosed (queue closed_session) \<and> closed closed_session
   \<and> \<not> send_nil closed_session \<and> length (buf (queue closed_session)) < cap (queue closed_session)
   \<and> Close ''again'' CloseGoingAway closed_session = Some closed_session
   \<and> map_option queue (Disconnect ''again'' CloseGoingAway closed_session)
       = Some (queue closed_session)
   \<and> Send ''late'' closed_session = Some (enqueue
        \<lparr>frameType = textFrame, payload = ''late'', closeCode = 0, closeReason = []\<rparr> closed_session)"
  using closed_gates_Close_not_Send [of closed_session "''again''" CloseGoingAway "''late''"]
  by (auto simp: closed_session_def wf_def)

text \<open>
  C4, as stated, fails: the first \<^verbatim>\<open>Close\<close> on a session whose queue is full sets
  \<^verbatim>\<open>closed\<close> but enqueues no close frame; the buffer holds the same 256 text frames.
\<close>

theorem Close_on_full_queue_counterexample:
  "\<not> closed full_session
   \<and> map_option closed (Close ''bye'' CloseNormalClosure full_session) = Some True
   \<and> map_option buf (map_option queue (Close ''bye'' CloseNormalClosure full_session))
       = Some (replicate 256
           \<lparr>frameType = textFrame, payload = ''m'', closeCode = 0, closeReason = []\<rparr>)"
  by (simp add: full_session_def emptySession_def Close_open sendClose.simps sendFrame_overflow
      Let_def)

text \<open>
  C4, amended. \<^verbatim>\<open>Close\<close> always returns and leaves the session closed, and a second call
  (with any reason and code) returns the state unchanged, as does any call on a session
  already closed. The first call on a session not yet closed stops the ping timer; it
  appends exactly one close frame with the given reason and code when \<^verbatim>\<open>send\<close> is not nil
  and the queue has room, and appends nothing when \<^verbatim>\<open>send\<close> is nil or the queue is full.
\<close>

theorem Close_idempotent:
  assumes "wf s"
  shows "\<exists>s'. Close reason code s = Some s' \<and> closed s'
     \<and> Close reason' code' s' = Some s'
     \<and> (closed s \<longrightarrow> s' = s)
     \<and> (\<not> closed s \<longrightarrow> pingTimer s' = map_option Stop (pingTimer s)
          \<and> (\<not> send_nil s \<and> length (buf (queue s)) < cap (queue s) \<longrightarrow>
               s' = stopPingTimer (enqueue \<lparr>frameType = closeFrame, payload = [],
                      closeCode = code, closeReason = reason\<rparr> (s\<lparr>closed := True\<rparr>))
               \<and> buf (queue s') = buf (queue s) @ [\<lparr>frameType = closeFrame, payload = [],
                      closeCode = code, closeReason = reason\<rparr>])
          \<and> (send_nil s \<or> \<not> length (buf (queue s)) < cap (queue s) \<longrightarrow>
               buf (queue s') = buf (queue s)))"
proof (cases "closed s")
  case True
  then show ?thesis using assms by (simp add: Close_closed wf_def)
next
  case False
  let ?t = "s\<lparr>closed := True\<rparr>"
  let ?f = "\<lparr>frameType = closeFrame, payload = [], closeCode = code, closeReason = reason\<rparr>"
  have wt: "wf ?t" using assms by (simp add: wf_def)
  have nm: "\<not> mu s" using assms by (simp add: wf_def)
  have eq: "Close reason code s = Option.bind (sendFrame ?f ?t) (\<lambda>s'. Some (stopPingTimer s'))"
    using nm False by (simp add: Close_open sendClose.simps)
  from wt show ?thesis
  proof (cases rule: sendFrame_cases [where frame = ?f])
    case nil
    then show ?thesis using eq False nm by (simp add: Close_closed)
  next
    case room
    then show ?thesis using eq False nm by (simp add: Close_closed)
  next
    case full
    then show ?thesis using eq False nm by (simp add: Close_closed Let_def)
  qed
qed

theorem Close_idempotent_witness:
  "\<not> mu emptySession \<and> \<not> chclosed (queue emptySession) \<and> \<not> closed emptySession
   \<and> \<not> send_nil emptySession \<and> length (buf (queue emptySession)) < cap (queue emptySession)
   \<and> Close ''bye'' CloseNormalClosure emptySession
       = Some (stopPingTimer (enqueue \<lparr>frameType = closeFrame, payload = [],
                 closeCode = CloseNormalClosure, closeReason = ''bye''\<rparr> (emptySession\<lparr>closed := True\<rparr>)))
   \<and> Option.bind (Close ''bye'' CloseNormalClosure emptySession) (Close ''again'' CloseGoingAway)
       = Close ''bye'' CloseNormalClosure emptySession"
  using Close_idempotent [of emptySession "''bye''" CloseNormalClosure "''again''" CloseGoingAway]
  by (auto simp: emptySession_def wf_def)

lemma IsCloseError_expected:
  "IsCloseError err expectedCloseStatuses \<longleftrightarrow>
     (\<exists>text. err = CloseError 1000 text \<or> err = CloseError 1001 text \<or> err = CloseError 1005 text)"
  by (cases err)
    (auto simp: expectedCloseStatuses_def CloseNormalClosure_def CloseGoingAway_def
      CloseNoStatusReceived_def)

text \<open>
  C5. The pass of \<^verbatim>\<open>ReadMessages\<close> in which \<^verbatim>\<open>ReadMessage\<close> returns an error ends the loop,
  whatever the error and whatever would have been read next, and leaves the session closed
  and not connected. A close error with code 1000 (normal closure), 1001 (going away) or
  1005 (no status) is mapped to \<^verbatim>\<open>Disconnect("Read closed", CloseNormalClosure)\<close>; every
  other error, a close error with another code included, to
  \<^verbatim>\<open>Disconnect("Read failed", CloseAbnormalClosure)\<close>. A message that is read is handed to
  \<^verbatim>\<open>HandleCommand\<close> and the loop goes on.
\<close>

theorem ReadMessages_maps_read_error:
  assumes "wf s"
  shows "(\<exists>s'. ReadMessages HandleCommand (ReadErr err # reads) s = Some (True, s')
           \<and> closed s' \<and> \<not> connected s')
     \<and> ((\<exists>text. err = CloseError 1000 text \<or> err = CloseError 1001 text
              \<or> err = CloseError 1005 text) \<longrightarrow>
          ReadMessages HandleCommand (ReadErr err # reads) s
            = map_option (Pair True) (Disconnect ''Read closed'' 1000 s))
     \<and> (\<not> (\<exists>text. err = CloseError 1000 text \<or> err = CloseError 1001 text
              \<or> err = CloseError 1005 text) \<longrightarrow>
          ReadMessages HandleCommand (ReadErr err # reads) s
            = map_option (Pair True) (Disconnect ''Read failed'' 1006 s))
     \<and> ReadMessages HandleCommand (ReadOk message # reads) s
          = Option.bind (HandleCommand message s) (ReadMessages HandleCommand reads)"
proof -
  obtain a b where ab: "Disconnect ''Read closed'' CloseNormalClosure s = Some a"
    "closed a" "\<not> connected a"
    "Disconnect ''Read failed'' CloseAbnormalClosure s = Some b" "closed b" "\<not> connected b"
    using Disconnect_after [OF assms] by blast
  have 1: "\<exists>s'. ReadMessages HandleCommand (ReadErr err # reads) s = Some (True, s')
           \<and> closed s' \<and> \<not> connected s'"
    using ab by simp
  have 2: "IsCloseError err expectedCloseStatuses \<Longrightarrow>
      ReadMessages HandleCommand (ReadErr err # reads) s
            = map_option (Pair True) (Disconnect ''Read closed'' 1000 s)"
    using ab(1) by (simp add: CloseNormalClosure_def)
  have 3: "\<not> IsCloseError err expectedCloseStatuses \<Longrightarrow>
      ReadMessages HandleCommand (ReadErr err # reads) s
            = map_option (Pair True) (Disconnect ''Read failed'' 1006 s)"
    using ab(4) by (simp add: CloseAbnormalClosure_def)
  have 4: "ReadMessages HandleCommand (ReadOk message # reads) s
          = Option.bind (HandleCommand message s) (ReadMessages HandleCommand reads)"
    by (cases "HandleCommand message s") simp_all
  show ?thesis
    using 1 2 3 4 unfolding IsCloseError_expected by blast
qed

theorem ReadMessages_maps_read_error_witness:
  "\<not> mu connected_session \<and> \<not> chclosed (queue connected_session)
   \<and> map_option fst (ReadMessages (\<lambda>m. Some) [ReadErr (CloseError 1001 ''page closed''),
        ReadOk ''unread''] connected_session) = Some True
   \<and> ReadMessages (\<lambda>m. Some) [ReadErr (CloseError 1001 ''page closed''), ReadOk ''unread'']
        connected_session
       = map_option (Pair True) (Disconnect ''Read closed'' 1000 connected_session)
   \<and> ReadMessages (\<lambda>m. Some) [ReadErr (OtherError ''unexpected EOF''), ReadOk ''unread'']
        connected_session
       = map_option (Pair True) (Disconnect ''Read failed'' 1006 connected_session)
   \<and> ReadMessages (\<lambda>m. Some) [ReadErr (CloseError 1011 ''server error'')] connected_session
       = map_option (Pair True) (Disconnect ''Read failed'' 1006 connected_session)"
proof -
  have w: "wf connected_session"
    by (simp add: connected_session_def emptySession_def wf_def)
  note a = ReadMessages_maps_read_error [OF w, of "\<lambda>m. Some"
      "CloseError 1001 ''page closed''" "[ReadOk ''unread'']"]
  note b = ReadMessages_maps_read_error [OF w, of "\<lambda>m. Some"
      "OtherError ''unexpected EOF''" "[ReadOk ''unread'']"]
  note c = ReadMessages_maps_read_error [OF w, of "\<lambda>m. Some"
      "CloseError 1011 ''server error''" "[]"]
  have 1: "map_option fst (ReadMessages (\<lambda>m. Some) [ReadErr (CloseError 1001 ''page closed''),
        ReadOk ''unread''] connected_session) = Some True"
  proof -
    from a obtain s' where "ReadMessages (\<lambda>m. Some) [ReadErr (CloseError 1001 ''page closed''),
        ReadOk ''unread''] connected_session = Some (True, s')"
      by blast
    then show ?thesis by (simp only: option.map fst_conv)
  qed
  have 2: "ReadMessages (\<lambda>m. Some) [ReadErr (CloseError 1001 ''page closed''), ReadOk ''unread'']
        connected_session
       = map_option (Pair True) (Disconnect ''Read closed'' 1000 connected_session)"
    using a by blast
  have 3: "ReadMessages (\<lambda>m. Some) [ReadErr (OtherError ''unexpected EOF''), ReadOk ''unread'']
        connected_session
       = map_option (Pair True) (Disconnect ''Read failed'' 1006 connected_session)"
    using b by blast
  have 4: "ReadMessages (\<lambda>m. Some) [ReadErr (CloseError 1011 ''server error'')] connected_session
       = map_option (Pair True) (Disconnect ''Read failed'' 1006 connected_session)"
  proof -
    have "\<not> (\<exists>text. CloseError 1011 ''server error'' = CloseError 1000 text
        \<or> CloseError 1011 ''server error'' = CloseError 1001 text
        \<or> CloseError 1011 ''server error'' = CloseError 1005 text)"
      by simp
    with c show ?thesis by blast
  qed
  show ?thesis
    using 1 2 3 4 by (simp add: connected_session_def emptySession_def del: ReadMessages.simps)
qed

lemma newPingMessage_eq:
  \<open>newPingMessage now = ''{"type":"ping","message":'' @ FormatInt (now div 1000000000) @ ''}''\<close>
  by (simp add: newPingMessage_def toJSON_def Unix_def Second_def)

lemma FormatInt_example: "FormatInt 1700000000 = ''1700000000''"
  by code_simp

text \<open>
  C6, as stated, fails: on a closed session a ping whose write succeeds does not re-arm the
  timer. \<^verbatim>\<open>sendPing\<close> calls \<^verbatim>\<open>addPing\<close>, which returns without a new timer when \<^verbatim>\<open>closed\<close>
  is true; the timer stays the stopped one and no \<^verbatim>\<open>time.AfterFunc\<close> follows the write.
\<close>

theorem sendPing_closed_counterexample:
  \<open>closed closed_session
   \<and> map_option pingTimer (sendPing 1700000000000000000 1700000000000000001 WriteOk closed_session)
       = Some (Some \<lparr>duration = 3000000000, active = False\<rparr>)
   \<and> map_option trace (sendPing 1700000000000000000 1700000000000000001 WriteOk closed_session)
       = Some [AfterFunc 3000000000 True, SetWriteDeadline 1700000001500000000 True,
               TextMessage ''{"type":"ping","message":1700000000}'' True WriteOk]\<close>
  by (simp add: sendPing_def write_ws_eq addPing_eq closed_session_def newPingMessage_eq
      FormatInt_example pingInterval_def Second_def)

text \<open>
  C6, amended. Each run of \<^verbatim>\<open>sendPing\<close> sets the write deadline to the time of the call
  plus 1.5 s (\<^verbatim>\<open>pingInterval/2\<close>) and writes the payload
  \<^verbatim>\<open>{"type":"ping","message":<unix seconds>}\<close>, both with the mutex held. If the write
  succeeds and the session is not closed, the timer is re-armed for 3 s; if the write
  succeeds and the session is closed, nothing more happens and the timer is left as it is.
  If the write fails, \<^verbatim>\<open>Disconnect("Ping failed", CloseAbnormalClosure)\<close> runs on the state
  the write left, and the session ends closed and not connected.
\<close>

theorem sendPing_writes_ping:
  assumes "wf s"
  shows \<open>\<exists>s' es. sendPing now now' r s = Some s'
     \<and> trace s' = trace s @ SetWriteDeadline (now + 1500000000) True
          # TextMessage (''{"type":"ping","message":'' @ FormatInt (now' div 1000000000) @ ''}'')
              True r # es
     \<and> (r = WriteOk \<and> \<not> closed s \<longrightarrow> es = [AfterFunc 3000000000 True]
          \<and> pingTimer s' = Some \<lparr>duration = 3000000000, active = True\<rparr>)
     \<and> (r = WriteOk \<and> closed s \<longrightarrow> es = [] \<and> pingTimer s' = pingTimer s)
     \<and> (r \<noteq> WriteOk \<longrightarrow> closed s' \<and> \<not> connected s'
          \<and> (\<exists>es'. es = CallDisconnect ''Ping failed'' 1006 # es')
          \<and> Disconnect ''Ping failed'' 1006
               (s\<lparr>trace := trace s @ [SetWriteDeadline (now + 1500000000) True,
                  TextMessage (''{"type":"ping","message":'' @ FormatInt (now' div 1000000000)
                    @ ''}'') True r]\<rparr>) = Some s')\<close>
proof -
  let ?t = "emit (TextMessage (newPingMessage now') True r)
             (emit (SetWriteDeadline (now + pingInterval div 2) True) s)"
  have nm: "\<not> mu s" using assms by (simp add: wf_def)
  have wt: "wf ?t" "\<not> mu ?t" using assms by (simp_all add: wf_def)
  have tt: \<open>?t = s\<lparr>trace := trace s @ [SetWriteDeadline (now + 1500000000) True,
                  TextMessage (''{"type":"ping","message":'' @ FormatInt (now' div 1000000000)
                    @ ''}'') True r]\<rparr>\<close>
    by (simp add: emit_def newPingMessage_eq pingInterval_def Second_def)
  have eq: "sendPing now now' r s =
      (if r = WriteOk then addPing ?t else Disconnect ''Ping failed'' CloseAbnormalClosure ?t)"
    using nm by (simp add: sendPing_def write_ws_eq Let_def)
  show ?thesis
  proof (cases "r = WriteOk")
    case True
    then show ?thesis
      using eq wt(2) unfolding tt
      by (cases "closed s") (simp_all add: addPing_eq pingInterval_def Second_def)
  next
    case False
    obtain s' where s': "Disconnect ''Ping failed'' CloseAbnormalClosure ?t = Some s'"
      "after ?t s'" "closed s'" "\<not> connected s'"
      using Disconnect_after [OF wt(1)] by blast
    obtain t' where t': "Close ''Ping failed'' CloseAbnormalClosure
        (emit (CallDisconnect ''Ping failed'' CloseAbnormalClosure) ?t\<lparr>connected := False\<rparr>) = Some t'"
      "after (emit (CallDisconnect ''Ping failed'' CloseAbnormalClosure) ?t\<lparr>connected := False\<rparr>) t'"
      using Close_after [of "emit (CallDisconnect ''Ping failed'' CloseAbnormalClosure) ?t\<lparr>connected := False\<rparr>"]
        wt by (auto simp: wf_def)
    from t'(2) obtain es where es:
      "trace t' = trace (emit (CallDisconnect ''Ping failed'' CloseAbnormalClosure) ?t\<lparr>connected := False\<rparr>) @ es"
      unfolding after_def by blast
    have "s' = (if connected s then emit NodeDisconnect t' else t')"
      using s'(1) t'(1) wt(2) by (auto simp: Disconnect_eq split: if_splits)
    then have "trace s' = trace ?t @ CallDisconnect ''Ping failed'' 1006
        # (es @ (if connected s then [NodeDisconnect] else []))"
      using es by (simp add: CloseAbnormalClosure_def)
    then show ?thesis
      using False eq s' unfolding tt by (simp add: CloseAbnormalClosure_def)
  qed
qed

theorem sendPing_writes_ping_witness:
  \<open>\<not> mu emptySession \<and> \<not> chclosed (queue emptySession) \<and> \<not> closed emptySession
   \<and> map_option trace (sendPing 1700000000000000000 1700000000000000001 WriteOk emptySession)
       = Some [SetWriteDeadline 1700000001500000000 True,
               TextMessage ''{"type":"ping","message":1700000000}'' True WriteOk,
               AfterFunc 3000000000 True]
   \<and> map_option pingTimer (sendPing 1700000000000000000 1700000000000000001 WriteOk emptySession)
       = Some (Some \<lparr>duration = 3000000000, active = True\<rparr>)
   \<and> map_option closed (sendPing 1700000000000000000 1700000000000000001 NextWriterErr emptySession)
       = Some True\<close>
proof -
  have w: "wf emptySession" by (simp add: emptySession_def wf_def)
  have t: "trace emptySession = []" "\<not> closed emptySession" by (simp_all add: emptySession_def)
  note a = sendPing_writes_ping [OF w, of 1700000000000000000 1700000000000000001 WriteOk]
  note b = sendPing_writes_ping [OF w, of 1700000000000000000 1700000000000000001 NextWriterErr]
  have "map_option closed (sendPing 1700000000000000000 1700000000000000001 NextWriterErr
      emptySession) = Some True"
    using b by auto
  moreover have
    \<open>map_option trace (sendPing 1700000000000000000 1700000000000000001 WriteOk emptySession)
       = Some [SetWriteDeadline 1700000001500000000 True,
               TextMessage ''{"type":"ping","message":1700000000}'' True WriteOk,
               AfterFunc 3000000000 True]\<close>
    "map_option pingTimer (sendPing 1700000000000000000 1700000000000000001 WriteOk emptySession)
       = Some (Some \<lparr>duration = 3000000000, active = True\<rparr>)"
    using a t by (auto simp: FormatInt_example)
  ultimately show ?thesis by (simp add: emptySession_def)
qed

lemma run_log:
  assumes "wf s"
  obtains s' es where "run xs s = Some s'" "kept s s'" "trace s' = trace s @ es" "logged s s' es"
  using run_after [OF assms, of xs] unfolding after_def by blast

lemma mutex_as_written_AfterFunc:
  "list_all mutex_as_written es \<Longrightarrow> AfterFunc d held \<in> set es \<Longrightarrow> held"
  by (auto simp: list_all_iff)

text \<open>
  C7. \<^verbatim>\<open>addPing\<close> locks the mutex, and with the mutex held it tests \<^verbatim>\<open>closed\<close> and either
  returns or installs the timer: on a closed session it changes nothing. Along any
  sequence of calls every \<^verbatim>\<open>time.AfterFunc\<close> is made with the mutex held, and from a closed
  session onwards \<^verbatim>\<open>closed\<close> stays true, \<^verbatim>\<open>pingTimer\<close> is never replaced and no
  \<^verbatim>\<open>time.AfterFunc\<close> is called.
\<close>

theorem addPing_never_rearms_closed:
  assumes "wf s"
  shows "addPing s = Some (if closed s then s
            else emit (AfterFunc pingInterval True) s
                   \<lparr>pingTimer := Some \<lparr>duration = pingInterval, active = True\<rparr>\<rparr>)
     \<and> (\<exists>s' es. run xs s = Some s' \<and> trace s' = trace s @ es
          \<and> (\<forall>d held. AfterFunc d held \<in> set es \<longrightarrow> held)
          \<and> (closed s \<longrightarrow> closed s' \<and> pingTimer s' = pingTimer s \<and> \<not> list_ex isAfterFunc es))"
proof -
  have 1: "addPing s = Some (if closed s then s
            else emit (AfterFunc pingInterval True) s
                   \<lparr>pingTimer := Some \<lparr>duration = pingInterval, active = True\<rparr>\<rparr>)"
    using assms by (simp add: addPing_eq wf_def)
  obtain s' es where r: "run xs s = Some s'" "kept s s'" "trace s' = trace s @ es" "logged s s' es"
    using assms by (rule run_log)
  have "\<forall>d held. AfterFunc d held \<in> set es \<longrightarrow> held"
    using r(4) by (auto simp: logged_def dest: mutex_as_written_AfterFunc)
  moreover have "closed s \<longrightarrow> closed s' \<and> pingTimer s' = pingTimer s \<and> \<not> list_ex isAfterFunc es"
    using r(2,4) by (simp add: kept_def logged_def)
  ultimately show ?thesis using 1 r(1,3) by blast
qed

theorem addPing_never_rearms_closed_witness:
  "\<not> mu closed_session \<and> \<not> chclosed (queue closed_session) \<and> closed closed_session
   \<and> addPing closed_session = Some closed_session
   \<and> map_option pingTimer (run [Op_addPing, Op_sendPing 0 0 WriteOk, Op_Send ''x'', Op_addPing]
        closed_session) = Some (Some \<lparr>duration = 3000000000, active = False\<rparr>)
   \<and> map_option closed (run [Op_addPing, Op_sendPing 0 0 WriteOk, Op_Send ''x'', Op_addPing]
        closed_session) = Some True"
proof -
  have w: "wf closed_session" "closed closed_session"
    "pingTimer closed_session = Some \<lparr>duration = 3000000000, active = False\<rparr>"
    by (simp_all add: closed_session_def wf_def pingInterval_def Second_def)
  note a = addPing_never_rearms_closed [OF w(1),
      of "[Op_addPing, Op_sendPing 0 0 WriteOk, Op_Send ''x'', Op_addPing]"]
  have "addPing closed_session = Some closed_session" using a w(2) by simp
  moreover have "map_option pingTimer (run [Op_addPing, Op_sendPing 0 0 WriteOk, Op_Send ''x'', Op_addPing]
        closed_session) = Some (Some \<lparr>duration = 3000000000, active = False\<rparr>)"
    "map_option closed (run [Op_addPing, Op_sendPing 0 0 WriteOk, Op_Send ''x'', Op_addPing]
        closed_session) = Some True"
    using a w(2,3) by (auto simp del: run.simps)
  moreover have "\<not> mu closed_session" "\<not> chclosed (queue closed_session)"
    by (simp_all add: closed_session_def)
  ultimately show ?thesis using w(2) by (simp del: run.simps)
qed

lemma queued_session_reached:
  "run [Op_Send ''a'', Op_Close ''bye'' CloseNormalClosure, Op_Send ''b''] emptySession
     = Some queued_session"
  by code_simp

lemma tagged_tail:
  "tagged s \<Longrightarrow> buf (queue s) = m # rest \<Longrightarrow>
   tagged (emit e (s\<lparr>queue := (queue s)\<lparr>buf := rest\<rparr>\<rparr>))
   \<and> tagged (emit e' (emit e (s\<lparr>queue := (queue s)\<lparr>buf := rest\<rparr>\<rparr>)))"
  by (simp add: tagged_def)

lemma run_tagged:
  "tagged emptySession" "wf s \<Longrightarrow> tagged s \<Longrightarrow> run xs s = Some s' \<Longrightarrow> tagged s'"
  using run_after [of s xs] by (auto simp: emptySession_def tagged_def after_def kept_def)

lemma loop_stops:
  "\<not> mu s \<Longrightarrow> tagged s \<Longrightarrow>
   \<exists>p s'. SendMessages_loop env i s = Some (p, s') \<and> \<not> mu s' \<and> writer_stops p s'"
proof (induction env i s rule: SendMessages_loop.induct)
  case (1 env i s)
  note nm = "1.prems"(1) and tg = "1.prems"(2)
  show ?case
  proof (cases "send_nil s")
    case True
    then show ?thesis
      using nm by (subst SendMessages_loop.simps) (simp add: pass_nil)
  next
    case False
    show ?thesis
    proof (cases "buf (queue s)")
      case Nil
      then show ?thesis
        using nm False
        by (subst SendMessages_loop.simps) (simp add: pass_empty)
    next
      case (Cons m rest)
      from tg Cons consider "frameType m = textFrame" | "frameType m = closeFrame"
        by (auto simp: tagged_def)
      then show ?thesis
      proof cases
        case 1
        let ?t = "emit (TextMessage (payload m) True (snd (env i)))
             (emit (SetWriteDeadline (fst (env i) + writeWait) True)
               (s\<lparr>queue := (queue s)\<lparr>buf := rest\<rparr>\<rparr>))"
        note p = pass_text [OF nm False Cons 1, of "fst (env i)" "snd (env i)"]
        show ?thesis
        proof (cases "snd (env i) = WriteOk")
          case True
          have "\<not> mu ?t" "tagged ?t" using nm tagged_tail [OF tg Cons] by simp_all
          then obtain p' s' where "SendMessages_loop env (Suc i) ?t = Some (p', s')" "\<not> mu s'"
            "writer_stops p' s'"
            using "1.IH" [of "(Continue, ?t)" Continue ?t] p True by auto
          then show ?thesis
            using p True by (subst SendMessages_loop.simps) simp
        next
          case False
          then show ?thesis
            using p nm by (subst SendMessages_loop.simps) simp
        qed
      next
        case 2
        show ?thesis
          using pass_close [OF nm False Cons 2, of "fst (env i)" "snd (env i)"] nm
          by (subst SendMessages_loop.simps) simp
      qed
    qed
  qed
qed

text \<open>
  The writer, for a session whose mutex is free and whose queued frames are text or close
  frames (every frame that \<^verbatim>\<open>Send\<close> and \<^verbatim>\<open>sendClose\<close> enqueue is one, see \<open>run_tagged\<close>).
  One pass of the loop of \<^verbatim>\<open>SendMessages\<close> takes the oldest frame. A text frame is written
  with the deadline set to the time of the pass plus 10 s, and the loop returns if the
  write fails and goes round again if it succeeds. A close frame is handed to
  \<^verbatim>\<open>utils.CloseWS\<close> with its code and reason, and the loop returns. A receive that finds
  the channel closed and drained makes the loop return. In every other case the pass
  blocks in the receive.
\<close>

lemma SendMessages_pass_cases:
  assumes "\<not> mu s" and "tagged s"
  shows "(send_nil s \<longrightarrow> SendMessages_pass now r s = Some (Blocked, s))
     \<and> (\<not> send_nil s \<and> buf (queue s) = [] \<longrightarrow>
          SendMessages_pass now r s
            = Some (if chclosed (queue s) then Return QueueClosed else Blocked, s))
     \<and> (\<forall>m rest. \<not> send_nil s \<and> buf (queue s) = m # rest \<and> frameType m = textFrame \<longrightarrow>
          SendMessages_pass now r s
            = Some (if r = WriteOk then Continue else Return WriteError,
                    s\<lparr>queue := (queue s)\<lparr>buf := rest\<rparr>,
                      trace := trace s @ [SetWriteDeadline (now + 10000000000) True,
                                          TextMessage (payload m) True r]\<rparr>))
     \<and> (\<forall>m rest. \<not> send_nil s \<and> buf (queue s) = m # rest \<and> frameType m = closeFrame \<longrightarrow>
          SendMessages_pass now r s
            = Some (Return CloseDelivered,
                    s\<lparr>queue := (queue s)\<lparr>buf := rest\<rparr>,
                      trace := trace s @ [CloseWS (closeCode m) (closeReason m) False]\<rparr>))
     \<and> (\<exists>p s'. SendMessages_loop env i s = Some (p, s') \<and> \<not> mu s' \<and> writer_stops p s')"
proof -
  have 1: "send_nil s \<longrightarrow> SendMessages_pass now r s = Some (Blocked, s)"
    by (simp add: pass_nil)
  have 2: "\<not> send_nil s \<and> buf (queue s) = [] \<longrightarrow>
          SendMessages_pass now r s
            = Some (if chclosed (queue s) then Return QueueClosed else Blocked, s)"
    by (simp add: pass_empty)
  have 3: "\<forall>m rest. \<not> send_nil s \<and> buf (queue s) = m # rest \<and> frameType m = textFrame \<longrightarrow>
          SendMessages_pass now r s
            = Some (if r = WriteOk then Continue else Return WriteError,
                    s\<lparr>queue := (queue s)\<lparr>buf := rest\<rparr>,
                      trace := trace s @ [SetWriteDeadline (now + 10000000000) True,
                                          TextMessage (payload m) True r]\<rparr>)"
    using assms(1) by (simp add: pass_text emit_def writeWait_def Second_def)
  have 4: "\<forall>m rest. \<not> send_nil s \<and> buf (queue s) = m # rest \<and> frameType m = closeFrame \<longrightarrow>
          SendMessages_pass now r s
            = Some (Return CloseDelivered,
                    s\<lparr>queue := (queue s)\<lparr>buf := rest\<rparr>,
                      trace := trace s @ [CloseWS (closeCode m) (closeReason m) False]\<rparr>)"
    using assms(1) by (simp add: pass_close emit_def)
  have 6: "\<exists>p s'. SendMessages_loop env i s = Some (p, s') \<and> \<not> mu s' \<and> writer_stops p s'"
    using assms by (rule loop_stops)
  show ?thesis using 1 2 3 4 6 by blast
qed

text \<open>
  From a session between two calls the whole of \<^verbatim>\<open>SendMessages\<close> either blocks in a
  receive, or returns after a failed write or after the delivery of a close frame, and
  then its deferred \<^verbatim>\<open>Disconnect("Write Failed", CloseAbnormalClosure)\<close> has run. It never
  returns because the channel is closed: the only \<^verbatim>\<open>close(s.send)\<close> of the source is
  followed by \<^verbatim>\<open>s.send = nil\<close> under the same lock, and the writer reads \<^verbatim>\<open>s.send\<close> anew in
  every pass.
\<close>

lemma SendMessages_from_wf:
  assumes "wf s" and "tagged s"
  shows "\<exists>p s'. SendMessages env s = Some (p, s') \<and> wf s'
     \<and> (p = Blocked \<or> p = Return WriteError \<or> p = Return CloseDelivered)
     \<and> (p = Blocked \<longrightarrow> send_nil s' \<or> buf (queue s') = [])
     \<and> (p \<noteq> Blocked \<longrightarrow> closed s' \<and> \<not> connected s')"
proof -
  have nm: "\<not> mu s" using assms(1) by (simp add: wf_def)
  obtain p t where pt: "SendMessages_loop env 0 s = Some (p, t)" "after s t"
    using loop_after [OF assms(1), of env 0] by blast
  have wt: "wf t" using pt(2) by (simp add: after_def kept_def)
  have st: "writer_stops p t" using loop_stops [OF nm assms(2), of env 0] pt(1) by simp
  have nq: "p \<noteq> Return QueueClosed" using st wt by (auto simp: wf_def)
  show ?thesis
  proof (cases "p = Blocked")
    case True
    then show ?thesis using pt(1) wt st by (auto simp: SendMessages_def)
  next
    case False
    obtain s' where s': "Disconnect ''Write Failed'' CloseAbnormalClosure t = Some s'"
      "after t s'" "closed s'" "\<not> connected s'"
      using Disconnect_after [OF wt] by blast
    have ws: "wf s'" using s'(2) by (simp add: after_def kept_def)
    have "p = Return WriteError \<or> p = Return CloseDelivered"
    proof (cases p)
      case (Return c)
      then show ?thesis using st nq by (cases c) simp_all
    qed (use st False in simp_all)
    then show ?thesis using pt(1) False s' ws by (auto simp: SendMessages_def)
  qed
qed

lemma SendMessages_nil: "send_nil s \<Longrightarrow> SendMessages env s = Some (Blocked, s)"
  by (simp add: SendMessages_def SendMessages_loop.simps [of env 0 s] pass_nil)

text \<open>
  The whole of \<^verbatim>\<open>SendMessages\<close> on the session that holds a text frame, a close frame and
  another text frame: the first is written, the close frame is delivered, the loop returns
  and the deferred \<^verbatim>\<open>Disconnect\<close> runs; the last frame is never written.
\<close>

lemma SendMessages_example:
  "map_option fst (SendMessages (\<lambda>i. (1700000000000000000, WriteOk)) queued_session)
     = Some (Return CloseDelivered)"
  "map_option trace (map_option snd
      (SendMessages (\<lambda>i. (1700000000000000000, WriteOk)) queued_session))
     = Some [SetWriteDeadline 1700000010000000000 True, TextMessage ''a'' True WriteOk,
             CloseWS 1000 ''bye'' False, CallDisconnect ''Write Failed'' 1006]"
  by code_simp+

text \<open>
  C8. The claim holds of \<^verbatim>\<open>SendMessages\<close> except for the closure of the queue channel,
  where the code does not do what its own \<^verbatim>\<open>if !ok { return }\<close> is there for. Take the
  session whose queue holds 256 frames. The next \<^verbatim>\<open>Send\<close> overflows: \<^verbatim>\<open>sendFrame\<close> closes
  the channel and sets \<^verbatim>\<open>s.send\<close> to nil. The writer then does not exit: it receives from
  the nil field and blocks for ever, the 256 frames stay in the buffer, nothing is written
  to the connection, and the deferred \<^verbatim>\<open>Disconnect("Write Failed", ...)\<close> of the writer
  never runs (the only \<^verbatim>\<open>Disconnect\<close> logged is that of the overflow).
\<close>

theorem SendMessages_blocks_after_queue_closure:
  "map_option chclosed (map_option queue (Send ''late'' full_session)) = Some True
   \<and> map_option send_nil (Send ''late'' full_session) = Some True
   \<and> Option.bind (Send ''late'' full_session)
        (SendMessages (\<lambda>i. (1700000000000000000, WriteOk)))
       = map_option (Pair Blocked) (Send ''late'' full_session)
   \<and> map_option buf (map_option queue (run [Op_Send ''late'',
        Op_SendMessages (\<lambda>i. (1700000000000000000, WriteOk))] full_session))
       = Some (buf (queue full_session))
   \<and> map_option trace (run [Op_Send ''late'',
        Op_SendMessages (\<lambda>i. (1700000000000000000, WriteOk))] full_session)
       = Some [CallDisconnect ''Write failed'' CloseAbnormalClosure]"
proof -
  have f: "\<not> mu full_session" "\<not> send_nil full_session" "\<not> chclosed (queue full_session)"
    "\<not> length (buf (queue full_session)) < cap (queue full_session)"
    "\<not> connected full_session" "trace full_session = []"
    by (simp_all add: full_session_def emptySession_def)
  obtain s' where s': "Send ''late'' full_session = Some s'" "send_nil s'"
    "queue s' = (queue full_session)\<lparr>chclosed := True\<rparr>"
    "trace s' = trace full_session @ CallDisconnect ''Write failed'' CloseAbnormalClosure
                # (if connected full_session then [NodeDisconnect] else [])"
    unfolding Send_def using sendFrame_overflow_props [OF f(1-4)] by metis
  have b: "SendMessages (\<lambda>i. (1700000000000000000, WriteOk)) s' = Some (Blocked, s')"
    using s'(2) by (rule SendMessages_nil)
  show ?thesis
    using s' b f(5,6) by simp
qed

text \<open>
  C9, as stated, fails for close frames: \<^verbatim>\<open>SendMessages\<close> hands a close frame to
  \<^verbatim>\<open>utils.CloseWS\<close> without locking the session mutex.
\<close>

theorem close_frame_written_unlocked_counterexample:
  "\<not> mu closed_session
   \<and> map_option fst (SendMessages_pass 1700000000000000000 WriteOk closed_session)
       = Some (Return CloseDelivered)
   \<and> map_option trace (map_option snd (SendMessages_pass 1700000000000000000 WriteOk closed_session))
       = Some [AfterFunc 3000000000 True, CloseWS 1000 ''bye'' False]"
  by (simp add: closed_session_def pass_close closeFrame_def CloseNormalClosure_def
      pingInterval_def Second_def)

lemma mutex_as_written_mem:
  assumes "list_all mutex_as_written es"
  shows "TextMessage p held r \<in> set es \<Longrightarrow> held" "SetWriteDeadline d held \<in> set es \<Longrightarrow> held"
    "CloseWS code reason held \<in> set es \<Longrightarrow> \<not> held"
  using assms by (auto simp: list_all_iff)

text \<open>
  C9, amended. Along any sequence of calls, every write of a text frame or of a ping (the
  \<^verbatim>\<open>SetWriteDeadline\<close> and the frame written by \<^verbatim>\<open>Session.write\<close>) is made with the session
  mutex held, and the mutex is free again afterwards; every close frame is written by
  \<^verbatim>\<open>utils.CloseWS\<close> with the session mutex not held.
\<close>

theorem text_and_ping_writes_locked:
  assumes "wf s"
  shows "\<exists>s' es. run xs s = Some s' \<and> \<not> mu s' \<and> trace s' = trace s @ es
     \<and> (\<forall>d held. SetWriteDeadline d held \<in> set es \<longrightarrow> held)
     \<and> (\<forall>p held r. TextMessage p held r \<in> set es \<longrightarrow> held)
     \<and> (\<forall>code reason held. CloseWS code reason held \<in> set es \<longrightarrow> \<not> held)"
proof -
  obtain s' es where r: "run xs s = Some s'" "kept s s'" "trace s' = trace s @ es" "logged s s' es"
    using assms by (rule run_log)
  have m: "list_all mutex_as_written es" using r(4) by (simp add: logged_def)
  have "\<not> mu s'" using r(2) by (simp add: kept_def wf_def)
  then show ?thesis
    using r(1,3) mutex_as_written_mem [OF m] by blast
qed

theorem text_and_ping_writes_locked_witness:
  \<open>\<not> mu emptySession \<and> \<not> chclosed (queue emptySession)
   \<and> map_option mu (run [Op_Send ''a'',
        Op_sendPing 1700000000000000000 1700000000000000001 WriteOk,
        Op_Close ''bye'' CloseNormalClosure,
        Op_SendMessages (\<lambda>i. (1700000002000000000, WriteOk))] emptySession) = Some False
   \<and> map_option trace (run [Op_Send ''a'',
        Op_sendPing 1700000000000000000 1700000000000000001 WriteOk,
        Op_Close ''bye'' CloseNormalClosure,
        Op_SendMessages (\<lambda>i. (1700000002000000000, WriteOk))] emptySession)
      = Some [SetWriteDeadline 1700000001500000000 True,
              TextMessage ''{"type":"ping","message":1700000000}'' True WriteOk,
              AfterFunc 3000000000 True,
              SetWriteDeadline 1700000012000000000 True, TextMessage ''a'' True WriteOk,
              CloseWS 1000 ''bye'' False,
              CallDisconnect ''Write Failed'' 1006]\<close>
proof -
  let ?xs = "[Op_Send ''a'', Op_sendPing 1700000000000000000 1700000000000000001 WriteOk,
        Op_Close ''bye'' CloseNormalClosure,
        Op_SendMessages (\<lambda>i. (1700000002000000000, WriteOk))]"
  have w: "wf emptySession" by (simp add: emptySession_def wf_def)
  obtain s' where s': "run ?xs emptySession = Some s'" "\<not> mu s'"
    using text_and_ping_writes_locked [OF w, of ?xs] by blast
  have 1: "map_option mu (run ?xs emptySession) = Some False"
    unfolding s'(1) using s'(2) by simp
  have 2: \<open>map_option trace (run ?xs emptySession)
      = Some [SetWriteDeadline 1700000001500000000 True,
              TextMessage ''{"type":"ping","message":1700000000}'' True WriteOk,
              AfterFunc 3000000000 True,
              SetWriteDeadline 1700000012000000000 True, TextMessage ''a'' True WriteOk,
              CloseWS 1000 ''bye'' False,
              CallDisconnect ''Write Failed'' 1006]\<close>
    by code_simp
  have 3: "\<not> mu emptySession \<and> \<not> chclosed (queue emptySession)"
    by (simp add: emptySession_def)
  show ?thesis using 1 2 3 by blast
qed

text \<open>
  C10. When \<^verbatim>\<open>sendFrame\<close> meets a full queue it leaves \<^verbatim>\<open>send\<close> nil, the channel closed and
  the session closed, and the buffer as it was: the close frame of the \<^verbatim>\<open>Close\<close> that the
  overflow itself triggers is not enqueued. From then on every \<^verbatim>\<open>sendFrame\<close>, \<^verbatim>\<open>Send\<close>,
  \<^verbatim>\<open>sendClose\<close> and \<^verbatim>\<open>Close\<close> returns at once and changes nothing, along any sequence of calls
  \<^verbatim>\<open>send\<close> stays nil, the queue stays as it is and no close frame is handed to the
  connection, and the writer blocks in its receive. On any session whose \<^verbatim>\<open>send\<close> is nil,
  \<^verbatim>\<open>Close\<close> leaves the queue unchanged.
\<close>

theorem overflow_drops_later_frames:
  assumes "wf s" and "\<not> send_nil s" and "\<not> length (buf (queue s)) < cap (queue s)"
  shows "\<exists>s'. sendFrame frame s = Some s' \<and> wf s' \<and> send_nil s' \<and> chclosed (queue s')
     \<and> closed s' \<and> buf (queue s') = buf (queue s)
     \<and> sendFrame frame' s' = Some s' \<and> Send msg s' = Some s'
     \<and> sendClose reason code s' = Some s' \<and> Close reason code s' = Some s'
     \<and> SendMessages env s' = Some (Blocked, s')
     \<and> (\<exists>s'' es. run xs s' = Some s'' \<and> send_nil s'' \<and> queue s'' = queue s'
          \<and> trace s'' = trace s' @ es \<and> \<not> list_ex isCloseWS es)
     \<and> (\<forall>t. wf t \<and> send_nil t \<longrightarrow> (\<exists>t'. Close reason code t = Some t' \<and> queue t' = queue t))"
proof -
  have nc: "\<not> mu s" "\<not> chclosed (queue s)" using assms(1,2) by (auto simp: wf_def)
  obtain s' where s': "sendFrame frame s = Some s'" "\<not> mu s'" "send_nil s'" "closed s'"
    "queue s' = (queue s)\<lparr>chclosed := True\<rparr>"
    using sendFrame_overflow_props [OF nc(1) assms(2) nc(2) assms(3), of frame] by metis
  have w: "wf s'" using s'(2,3) by (simp add: wf_def)
  obtain s'' es where r: "run xs s' = Some s''" "kept s' s''" "trace s'' = trace s' @ es"
    "logged s' s'' es"
    using w by (rule run_log)
  have 1: "\<exists>s'' es. run xs s' = Some s'' \<and> send_nil s'' \<and> queue s'' = queue s'
          \<and> trace s'' = trace s' @ es \<and> \<not> list_ex isCloseWS es"
    using r s'(3) by (auto simp: kept_def logged_def)
  have 2: "\<forall>t. wf t \<and> send_nil t \<longrightarrow> (\<exists>t'. Close reason code t = Some t' \<and> queue t' = queue t)"
    by (simp add: Close_nil wf_def)
  have 3: "sendFrame frame' s' = Some s'" "Send msg s' = Some s'"
    "sendClose reason code s' = Some s'" "Close reason code s' = Some s'"
    "SendMessages env s' = Some (Blocked, s')"
    using s'(2,3,4) by (simp_all add: sendFrame_nil Send_def sendClose_nil Close_closed SendMessages_nil)
  show ?thesis
    using s' w 1 2 3 by simp
qed

theorem overflow_drops_later_frames_witness:
  "\<not> mu full_session \<and> \<not> chclosed (queue full_session) \<and> \<not> send_nil full_session
   \<and> \<not> length (buf (queue full_session)) < cap (queue full_session)
   \<and> \<not> closed full_session
   \<and> map_option send_nil (Send ''late'' full_session) = Some True
   \<and> map_option closed (Send ''late'' full_session) = Some True
   \<and> map_option buf (map_option queue (Send ''late'' full_session))
       = Some (buf (queue full_session))
   \<and> Option.bind (Send ''late'' full_session) (Close ''bye'' CloseGoingAway)
       = Send ''late'' full_session
   \<and> Option.bind (Send ''late'' full_session) (Send ''later'') = Send ''late'' full_session
   \<and> map_option fst (Option.bind (Send ''late'' full_session)
        (SendMessages (\<lambda>i. (1700000000000000000, WriteOk)))) = Some Blocked"
proof -
  have f: "\<not> mu full_session" "\<not> chclosed (queue full_session)" "\<not> send_nil full_session"
    "\<not> length (buf (queue full_session)) < cap (queue full_session)" "\<not> closed full_session"
    by (simp_all add: full_session_def emptySession_def)
  have w: "wf full_session" using f by (simp add: wf_def)
  obtain s' where s': "Send ''late'' full_session = Some s'" "send_nil s'" "closed s'"
    "buf (queue s') = buf (queue full_session)" "Send ''later'' s' = Some s'"
    "Close ''bye'' CloseGoingAway s' = Some s'"
    "SendMessages (\<lambda>i. (1700000000000000000, WriteOk)) s' = Some (Blocked, s')"
    using overflow_drops_later_frames [OF w f(3,4),
        of "\<lparr>frameType = textFrame, payload = ''late'', closeCode = 0, closeReason = []\<rparr>"
          _ "''later''" "''bye''" CloseGoingAway "\<lambda>i. (1700000000000000000, WriteOk)"]
    unfolding Send_def by blast
  show ?thesis using f s' by simp
qed

end
